theory Spec2Isabelle
  imports Main "HOL-Library.Sublist" "HOL-Library.Word"
begin

unbundle bit_operations_syntax

chapter \<open>fissile: release loading, fingerprints, link resolution, compilation queue\<close>

text \<open>
  Go strings and byte slices are byte sequences; they are modelled as \<open>string\<close>
  (\<open>char list\<close>, one \<open>char\<close> per byte). Errors are values.
\<close>

section \<open>Release loader: the \<open>!binary\<close> repair (model/release.go)\<close>

text \<open>
  \<open>yamlBinaryRegexp = regexp.MustCompile(`([^!])!binary \|-\n`)\<close>.
  The literal part of the pattern, after the one-character group \<open>[^!]\<close>:
\<close>

definition binaryTag :: string where
  "binaryTag = ''!binary |-'' @ [CHR 0x0A]"

text \<open>
  \<open>yamlBinaryRegexp.ReplaceAll(manifestContents, []byte("$1!!binary |-\n"))\<close>:
  matches are found leftmost first and do not overlap; each match (one byte other than
  \<open>!\<close>, then the literal) is replaced by the captured byte, a second \<open>!\<close> and the
  literal; the scan resumes after the match. The literal is ASCII, so matching by bytes
  and matching by UTF-8 runes produce the same output bytes.
\<close>

function yamlBinaryRegexp_ReplaceAll :: "string \<Rightarrow> string" where
  "yamlBinaryRegexp_ReplaceAll [] = []"
| "yamlBinaryRegexp_ReplaceAll (c # rest) =
     (if c \<noteq> CHR ''!'' \<and> prefix binaryTag rest
      then c # CHR ''!'' # binaryTag @ yamlBinaryRegexp_ReplaceAll (drop (length binaryTag) rest)
      else c # yamlBinaryRegexp_ReplaceAll rest)"
  by pat_completeness auto
termination
  by (relation "measure length") auto

text \<open>The scalar fields \<open>loadMetadata\<close> copies from the parsed manifest to the release.\<close>

record manifest =
  mName :: string
  mVersion :: string
  mCommitHash :: string
  mUncommittedChanges :: bool

record release_meta =
  CommitHash :: string
  UncommittedChanges :: bool
  RName :: string
  RVersion :: string

datatype load_error = ReadError string | YamlError string

text \<open>
  \<open>(*Release).loadMetadata\<close>. The file read (\<open>ioutil.ReadFile\<close>) is the argument
  \<open>contents\<close>, an error or the bytes; the YAML parser (\<open>yaml.Unmarshal\<close>, an external
  library) is the parameter \<open>unmarshal\<close>.
\<close>

definition fromManifest :: "manifest \<Rightarrow> release_meta" where
  "fromManifest m = \<lparr> CommitHash = mCommitHash m,
                      UncommittedChanges = mUncommittedChanges m,
                      RName = mName m,
                      RVersion = mVersion m \<rparr>"

definition loadMetadata ::
  "(string \<Rightarrow> load_error + manifest) \<Rightarrow> load_error + string \<Rightarrow> load_error + release_meta" where
  "loadMetadata unmarshal contents =
     (case contents of
        Inl err \<Rightarrow> Inl err
      | Inr manifestContents \<Rightarrow>
          (case unmarshal (yamlBinaryRegexp_ReplaceAll manifestContents) of
             Inl err \<Rightarrow> Inl err
           | Inr m \<Rightarrow> Inr (fromManifest m)))"

text \<open>
  The property "a \<open>!binary\<close> with a single exclamation mark occurs in the text":
  the seven bytes \<open>!binary\<close> at the start of the text or after a byte other than \<open>!\<close>.
\<close>

fun singleBangAfter :: "char \<Rightarrow> string \<Rightarrow> bool" where
  "singleBangAfter p [] = False"
| "singleBangAfter p (c # rest) =
     ((p \<noteq> CHR ''!'' \<and> prefix ''!binary'' (c # rest)) \<or> singleBangAfter c rest)"

definition hasSingleBangBinary :: "string \<Rightarrow> bool" where
  "hasSingleBangBinary s = singleBangAfter (CHR '' '') s"

text \<open>
  The pattern \<open>[^!]!binary \|-\n\<close> matches somewhere in the text: some byte other than
  \<open>!\<close> is followed by the literal.
\<close>

fun hasGuardedMatch :: "string \<Rightarrow> bool" where
  "hasGuardedMatch [] = False"
| "hasGuardedMatch (c # rest) =
     (if c \<noteq> CHR ''!'' \<and> prefix binaryTag rest then True else hasGuardedMatch rest)"

subsection \<open>Lemmas on the repair\<close>

lemma bang_not_in_tl_binaryTag: "CHR ''!'' \<notin> set (tl binaryTag)"
  by (simp add: binaryTag_def)

lemma binaryTag_hd: "binaryTag = CHR ''!'' # tl binaryTag"
  by (simp add: binaryTag_def)

text \<open>A match cannot start before the byte that precedes an occurrence of the literal
  and reach into that occurrence: the literal has its only \<open>!\<close> in front.\<close>

lemma binaryTag_no_straddle:
  assumes "prefix binaryTag (xs @ c # binaryTag @ ys)"
  shows "prefix binaryTag (xs @ [c])"
proof (rule ccontr)
  assume np: "\<not> prefix binaryTag (xs @ [c])"
  from assms obtain zs where zs: "xs @ c # binaryTag @ ys = binaryTag @ zs"
    by (auto simp: prefix_def)
  have lt: "length xs + 1 < length binaryTag"
  proof (rule ccontr)
    assume "\<not> length xs + 1 < length binaryTag"
    then have "length binaryTag \<le> length (xs @ [c])" by simp
    moreover have "(xs @ [c]) @ binaryTag @ ys = binaryTag @ zs" using zs by simp
    ultimately have "prefix binaryTag (xs @ [c])"
      by (metis append_eq_append_conv_if prefix_def append_take_drop_id)
    with np show False by simp
  qed
  have ne: "binaryTag \<noteq> []" using binaryTag_hd by (metis list.distinct(1))
  have "(xs @ c # binaryTag @ ys) ! (length xs + 1) = binaryTag ! 0"
    using ne by (simp add: nth_append)
  moreover have "binaryTag ! 0 = CHR ''!''" by (subst binaryTag_hd) simp
  moreover have "(binaryTag @ zs) ! (length xs + 1) = binaryTag ! (length xs + 1)"
    using lt by (simp add: nth_append)
  ultimately have "binaryTag ! (length xs + 1) = CHR ''!''"
    using zs by simp
  then have "tl binaryTag ! length xs = CHR ''!''"
    using lt by (simp add: nth_tl)
  moreover have "length xs < length (tl binaryTag)" using lt by simp
  ultimately have "CHR ''!'' \<in> set (tl binaryTag)" by (metis nth_mem)
  with bang_not_in_tl_binaryTag show False by simp
qed

lemma ReplaceAll_no_match:
  "\<not> hasGuardedMatch s \<Longrightarrow> yamlBinaryRegexp_ReplaceAll s = s"
proof (induction s)
  case Nil
  show ?case by simp
next
  case (Cons c rest)
  from Cons.prems have n: "\<not> (c \<noteq> CHR ''!'' \<and> prefix binaryTag rest)"
    and r: "\<not> hasGuardedMatch rest"
    by (auto split: if_splits)
  from Cons.IH[OF r] n show ?case by auto
qed

lemma ReplaceAll_leftmost_match:
  "c \<noteq> CHR ''!'' \<Longrightarrow> \<not> hasGuardedMatch (xs @ [c]) \<Longrightarrow>
   yamlBinaryRegexp_ReplaceAll (xs @ c # binaryTag @ ys)
     = xs @ c # CHR ''!'' # binaryTag @ yamlBinaryRegexp_ReplaceAll ys"
proof (induction xs)
  case Nil
  then show ?case by simp
next
  case (Cons x xs)
  from Cons.prems(2) have ng: "\<not> (x \<noteq> CHR ''!'' \<and> prefix binaryTag (xs @ [c]))"
    and rest: "\<not> hasGuardedMatch (xs @ [c])"
    by (auto split: if_splits)
  have "\<not> (x \<noteq> CHR ''!'' \<and> prefix binaryTag (xs @ c # binaryTag @ ys))"
    using ng binaryTag_no_straddle by blast
  then show ?case using Cons.IH[OF Cons.prems(1) rest] by auto
qed

lemma hasGuardedMatch_iff:
  "hasGuardedMatch s \<longleftrightarrow> (\<exists>xs c ys. s = xs @ c # binaryTag @ ys \<and> c \<noteq> CHR ''!'')"
proof
  assume "hasGuardedMatch s"
  then show "\<exists>xs c ys. s = xs @ c # binaryTag @ ys \<and> c \<noteq> CHR ''!''"
  proof (induction s)
    case Nil
    then show ?case by simp
  next
    case (Cons a s)
    show ?case
    proof (cases "a \<noteq> CHR ''!'' \<and> prefix binaryTag s")
      case True
      then obtain ys where "s = binaryTag @ ys" by (auto simp: prefix_def)
      with True have "a # s = [] @ a # binaryTag @ ys \<and> a \<noteq> CHR ''!''" by simp
      then show ?thesis by blast
    next
      case False
      with Cons.prems have "hasGuardedMatch s" by (auto split: if_splits)
      from Cons.IH[OF this] obtain xs c ys where "s = xs @ c # binaryTag @ ys" "c \<noteq> CHR ''!''"
        by blast
      then have "a # s = (a # xs) @ c # binaryTag @ ys \<and> c \<noteq> CHR ''!''" by simp
      then show ?thesis by blast
    qed
  qed
next
  assume "\<exists>xs c ys. s = xs @ c # binaryTag @ ys \<and> c \<noteq> CHR ''!''"
  then obtain xs c ys where s: "s = xs @ c # binaryTag @ ys" and c: "c \<noteq> CHR ''!''" by blast
  have "hasGuardedMatch (xs @ c # binaryTag @ ys)"
    using c by (induction xs) auto
  with s show "hasGuardedMatch s" by simp
qed

text \<open>
  Claim C8, as stated: before parsing, \<open>loadMetadata\<close> rewrites every occurrence of the
  tag \<open>!binary\<close> (single exclamation mark) to \<open>!!binary\<close>. This fails: the pattern
  only matches the block-scalar form \<open>!binary |-\<close> followed by a newline. A manifest
  with \<open>!binary |\<close> reaches the parser unchanged (the parser here returns the text it
  was given, inside an error, so that the text is visible).
\<close>

theorem loadMetadata_binary_counterexample:
  "loadMetadata (\<lambda>text. Inl (YamlError text)) (Inr (''a: !binary |'' @ [CHR 0x0A] @ ''  aGk=''))
     = Inl (YamlError (''a: !binary |'' @ [CHR 0x0A] @ ''  aGk=''))
   \<and> hasSingleBangBinary (yamlBinaryRegexp_ReplaceAll (''a: !binary |'' @ [CHR 0x0A] @ ''  aGk=''))"
  by (simp add: loadMetadata_def hasSingleBangBinary_def binaryTag_def)

text \<open>
  Claim C8, amended: \<open>loadMetadata\<close> parses the repaired text, and the repair is this.
  A text in which the literal \<open>!binary |-\<newline>\<close> never follows a byte other than
  \<open>!\<close> (so also one where it stands at the very start, or where the tag is already
  \<open>!!binary\<close>) is unchanged. Otherwise the leftmost occurrence of the literal after a
  byte other than \<open>!\<close> gets a second \<open>!\<close>, the text before it is unchanged, and
  the repair continues with the text after that occurrence.
\<close>

theorem loadMetadata_binary_repair:
  "loadMetadata unmarshal (Inr s)
     = map_sum id fromManifest (unmarshal (yamlBinaryRegexp_ReplaceAll s))
   \<and> (hasGuardedMatch s \<longleftrightarrow> (\<exists>us d vs. s = us @ d # binaryTag @ vs \<and> d \<noteq> CHR ''!''))
   \<and> (\<not> hasGuardedMatch s \<longrightarrow> yamlBinaryRegexp_ReplaceAll s = s)
   \<and> (c \<noteq> CHR ''!'' \<and> \<not> hasGuardedMatch (xs @ [c]) \<longrightarrow>
        yamlBinaryRegexp_ReplaceAll (xs @ c # binaryTag @ ys)
          = xs @ c # CHR ''!'' # binaryTag @ yamlBinaryRegexp_ReplaceAll ys)"
proof (intro conjI impI)
  show "loadMetadata unmarshal (Inr s)
          = map_sum id fromManifest (unmarshal (yamlBinaryRegexp_ReplaceAll s))"
    by (simp add: loadMetadata_def split: sum.splits)
next
  show "hasGuardedMatch s \<longleftrightarrow> (\<exists>us d vs. s = us @ d # binaryTag @ vs \<and> d \<noteq> CHR ''!'')"
    by (rule hasGuardedMatch_iff)
next
  assume "\<not> hasGuardedMatch s"
  then show "yamlBinaryRegexp_ReplaceAll s = s" by (rule ReplaceAll_no_match)
next
  assume "c \<noteq> CHR ''!'' \<and> \<not> hasGuardedMatch (xs @ [c])"
  then show "yamlBinaryRegexp_ReplaceAll (xs @ c # binaryTag @ ys)
               = xs @ c # CHR ''!'' # binaryTag @ yamlBinaryRegexp_ReplaceAll ys"
    using ReplaceAll_leftmost_match by blast
qed

theorem loadMetadata_binary_repair_witness:
  "yamlBinaryRegexp_ReplaceAll (''k:'' @ CHR '' '' # binaryTag @ ''v: !'' @ binaryTag)
     = ''k: !'' @ binaryTag @ ''v: !'' @ binaryTag
   \<and> yamlBinaryRegexp_ReplaceAll (binaryTag @ ''w: !binary'') = binaryTag @ ''w: !binary''"
proof -
  have a: "\<not> hasGuardedMatch (''v: !'' @ binaryTag)"
    by (simp add: binaryTag_def)
  have b: "CHR '' '' \<noteq> CHR ''!'' \<and> \<not> hasGuardedMatch (''k:'' @ [CHR '' ''])"
    by (simp add: binaryTag_def)
  have d: "\<not> hasGuardedMatch (binaryTag @ ''w: !binary'')"
    by (simp add: binaryTag_def)
  from loadMetadata_binary_repair [of undefined "''v: !'' @ binaryTag" "CHR '' ''" "''k:''" "''v: !'' @ binaryTag"] a b
  have 1: "yamlBinaryRegexp_ReplaceAll (''k:'' @ CHR '' '' # binaryTag @ ''v: !'' @ binaryTag)
          = ''k:'' @ CHR '' '' # CHR ''!'' # binaryTag @ ''v: !'' @ binaryTag"
    by metis
  from loadMetadata_binary_repair [of undefined "binaryTag @ ''w: !binary''" "CHR '' ''" "[]" "[]"] d
  have 2: "yamlBinaryRegexp_ReplaceAll (binaryTag @ ''w: !binary'') = binaryTag @ ''w: !binary''"
    by metis
  from 1 2 show ?thesis by simp
qed

section \<open>Fingerprinter: \<open>AggregateSignatures\<close> (model/instance_groups.go)\<close>

subsection \<open>SHA-1 (\<open>crypto/sha1\<close>) and hexadecimal output (\<open>encoding/hex\<close>)\<close>

























subsection \<open>The hasher and \<open>AggregateSignatures\<close>\<close>




definition digitChar :: "nat \<Rightarrow> char" where
  "digitChar d = char_of (48 + d)"

function Sprintf_d :: "nat \<Rightarrow> string" where
  "Sprintf_d n = (if n < 10 then [digitChar n] else Sprintf_d (n div 10) @ [digitChar (n mod 10)])"
  by pat_completeness auto
termination by (relation "measure id") auto

declare Sprintf_d.simps [simp del]



text \<open>Reading back: the value of a decimal string, and the split at NUL bytes.\<close>

definition digitVal :: "char \<Rightarrow> nat" where
  "digitVal c = of_char c - 48"

definition atoi :: "string \<Rightarrow> nat" where
  "atoi s = foldl (\<lambda>acc c. 10 * acc + digitVal c) 0 s"


subsection \<open>Lemmas on the hash input\<close>



lemma digitVal_digitChar: "d < 10 \<Longrightarrow> digitVal (digitChar d) = d"
  by (simp add: digitVal_def digitChar_def)


lemma atoi_Sprintf_d: "atoi (Sprintf_d n) = n"
proof (induction n rule: Sprintf_d.induct)
  case (1 n)
  show ?case
  proof (cases "n < 10")
    case True
    then show ?thesis by (simp add: Sprintf_d.simps[of n] atoi_def digitVal_digitChar)
  next
    case False
    with 1 have "atoi (Sprintf_d (n div 10)) = n div 10" by simp
    with False show ?thesis
      by (simp add: Sprintf_d.simps[of n] atoi_def digitVal_digitChar)
  qed
qed

lemma Sprintf_d_inj: "Sprintf_d a = Sprintf_d b \<Longrightarrow> a = b"
  by (metis atoi_Sprintf_d)




























section \<open>Compilation engine (compilator/compilator.go)\<close>

text \<open>
  \<open>model.Package\<close>, with the fields the compilation engine reads. \<open>Dependencies\<close>
  is a list of package pointers in Go; the release invariant that dependencies form a
  DAG makes the pointer graph a finite tree when unfolded, which is this datatype.
\<close>

datatype package =
  Package (Package_Name: string) (Package_Fingerprint: string)
          (Package_Release_Name: string) (Package_Dependencies: "package list")

text \<open>\<open>model.Release\<close>: the name and the packages. An instance group is read here only
  through the package lists of its job references.\<close>

record release =
  Release_Name :: string
  Release_Packages :: "package list"

type_synonym jobReference_packages = "package list"
type_synonym instanceGroup_jobs = "jobReference_packages list"

text \<open>
  \<open>signalDependencies map[string]chan struct{}\<close>: a channel is open or closed;
  \<open>close\<close> panics on a nil channel (a missing key) and on a closed one.
\<close>

datatype chan = Open | Closed

type_synonym signals = "string \<rightharpoonup> chan"

datatype panic = CloseOfNilChannel | CloseOfClosedChannel

definition close :: "chan option \<Rightarrow> panic + chan" where
  "close ch = (case ch of None \<Rightarrow> Inl CloseOfNilChannel
                        | Some Closed \<Rightarrow> Inl CloseOfClosedChannel
                        | Some Open \<Rightarrow> Inr Closed)"

text \<open>
  \<open>gatherPackagesFromInstanceGroups\<close>: the second loop walks the pending list
  (\<open>container/list\<close>), skips a package whose name is listed, and pushes the dependencies
  of a newly listed package to the back.
\<close>

function walkPending :: "string set \<Rightarrow> package list \<Rightarrow> package list" where
  "walkPending listedPackages [] = []"
| "walkPending listedPackages (pkg # pending) =
     (if Package_Name pkg \<in> listedPackages then walkPending listedPackages pending
      else pkg # walkPending (insert (Package_Name pkg) listedPackages)
                             (pending @ Package_Dependencies pkg))"
  by pat_completeness auto
termination
proof (relation "measure (\<lambda>(l, pending). sum_list (map size pending))", goal_cases)
  case 1 show ?case by simp
next
  case (2 listed pkg pending) show ?case by (cases pkg) simp
next
  case (3 listed pkg pending)
  show ?case by (cases pkg) (simp add: size_list_conv_sum_list)
qed

definition gatherPackagesFromInstanceGroups ::
  "release \<Rightarrow> instanceGroup_jobs list \<Rightarrow> package list" where
  "gatherPackagesFromInstanceGroups rel instanceGroups =
     walkPending {}
       (filter (\<lambda>pkg. Package_Release_Name pkg = Release_Name rel)
               (concat (concat instanceGroups)))"

text \<open>\<open>gatherPackages\<close>: the inner loop body (marked \<open>%%\<close> in the source) and the loops.\<close>

definition gatherStep :: "signals \<times> package list \<Rightarrow> package \<Rightarrow> signals \<times> package list" where
  "gatherStep st pkg =
     (case st of (signalDependencies, packages) \<Rightarrow>
        if signalDependencies (Package_Fingerprint pkg) = None
        then (signalDependencies(Package_Fingerprint pkg \<mapsto> Open), packages @ [pkg])
        else (signalDependencies, packages))"

definition releasePackagesOf :: "instanceGroup_jobs list option \<Rightarrow> release \<Rightarrow> package list" where
  "releasePackagesOf instanceGroups rel =
     (case instanceGroups of
        Some igs \<Rightarrow> gatherPackagesFromInstanceGroups rel igs
      | None \<Rightarrow> Release_Packages rel)"

definition gatherPackages ::
  "signals \<Rightarrow> release list \<Rightarrow> instanceGroup_jobs list option \<Rightarrow> signals \<times> package list" where
  "gatherPackages signalDependencies releases instanceGroups =
     foldl (\<lambda>st rel. foldl gatherStep st (releasePackagesOf instanceGroups rel))
           (signalDependencies, []) releases"


subsection \<open>\<open>createDepBuckets\<close>\<close>

text \<open>
  \<open>depCount map[string]int\<close> and \<open>revDeps map[string][]*model.Package\<close>. Reading a
  missing key gives 0, respectively nil; \<open>_, known := depCount[k]\<close> is \<open>depCount k \<noteq> None\<close>.
  The counters are far from the range of a 64-bit \<open>int\<close>; they are \<open>int\<close> here.
\<close>

type_synonym depCounts = "string \<rightharpoonup> int"
type_synonym revMap = "string \<rightharpoonup> package list"

definition countOf :: "depCounts \<Rightarrow> string \<Rightarrow> int" where
  "countOf depCount k = (case depCount k of None \<Rightarrow> 0 | Some n \<Rightarrow> n)"

definition usersOf :: "revMap \<Rightarrow> string \<Rightarrow> package list" where
  "usersOf revDeps k = (case revDeps k of None \<Rightarrow> [] | Some ps \<Rightarrow> ps)"

definition initDepCount :: "package list \<Rightarrow> depCounts" where
  "initDepCount packages =
     foldl (\<lambda>depCount pkg. depCount(Package_Fingerprint pkg \<mapsto> 0)) Map.empty packages"

definition recordDep :: "package \<Rightarrow> depCounts \<times> revMap \<Rightarrow> package \<Rightarrow> depCounts \<times> revMap" where
  "recordDep pkg st dep =
     (case st of (depCount, revDeps) \<Rightarrow>
        if depCount (Package_Fingerprint dep) = None then (depCount, revDeps)
        else (depCount(Package_Fingerprint pkg \<mapsto> countOf depCount (Package_Fingerprint pkg) + 1),
              revDeps(Package_Fingerprint dep \<mapsto> usersOf revDeps (Package_Fingerprint dep) @ [pkg])))"

definition recordDeps :: "package list \<Rightarrow> depCounts \<times> revMap" where
  "recordDeps packages =
     foldl (\<lambda>st pkg. foldl (recordDep pkg) st (Package_Dependencies pkg))
           (initDepCount packages, Map.empty) packages"

text \<open>The state of the main loop. \<open>visit\<close> is the body of the inner \<open>for\<close> over the
  packages, \<open>pass\<close> one iteration of the outer \<open>for keepRunning\<close>.\<close>

record bucketState =
  depCount :: depCounts
  keepRunning :: bool
  rubies :: "package list"
  buckets :: "package list"

definition notifyUsers :: "depCounts \<Rightarrow> package list \<Rightarrow> depCounts" where
  "notifyUsers dc users =
     foldl (\<lambda>dc usr. dc(Package_Fingerprint usr \<mapsto> countOf dc (Package_Fingerprint usr) - 1))
           dc users"

definition visit :: "revMap \<Rightarrow> bucketState \<Rightarrow> package \<Rightarrow> bucketState" where
  "visit revDeps st pkg =
     (if countOf (depCount st) (Package_Fingerprint pkg) \<noteq> 0 then st
      else let dc = notifyUsers
                      ((depCount st)(Package_Fingerprint pkg \<mapsto>
                          countOf (depCount st) (Package_Fingerprint pkg) - 1))
                      (usersOf revDeps (Package_Fingerprint pkg))
           in if prefix ''ruby-2.'' (Package_Name pkg)
              then st\<lparr>depCount := dc, keepRunning := True, rubies := rubies st @ [pkg]\<rparr>
              else st\<lparr>depCount := dc, keepRunning := True, buckets := buckets st @ [pkg]\<rparr>)"

definition pass :: "revMap \<Rightarrow> package list \<Rightarrow> bucketState \<Rightarrow> bucketState" where
  "pass revDeps packages st = foldl (visit revDeps) (st\<lparr>keepRunning := False\<rparr>) packages"

text \<open>The outer loop terminates: a pass that sets \<open>keepRunning\<close> drops the counter of at
  least one package below zero, and counters never grow.\<close>

definition unqueued :: "depCounts \<Rightarrow> package list \<Rightarrow> nat" where
  "unqueued dc packages = length (filter (\<lambda>p. 0 \<le> countOf dc (Package_Fingerprint p)) packages)"

lemma notifyUsers_le: "countOf (notifyUsers dc users) k \<le> countOf dc k"
proof (induction users arbitrary: dc)
  case Nil
  show ?case by (simp add: notifyUsers_def)
next
  case (Cons u us)
  have "countOf (notifyUsers (dc(Package_Fingerprint u \<mapsto> countOf dc (Package_Fingerprint u) - 1)) us) k
          \<le> countOf (dc(Package_Fingerprint u \<mapsto> countOf dc (Package_Fingerprint u) - 1)) k"
    by (rule Cons.IH)
  also have "\<dots> \<le> countOf dc k" by (simp add: countOf_def)
  finally show ?case by (simp add: notifyUsers_def)
qed

lemma visit_le: "countOf (depCount (visit rd st p)) k \<le> countOf (depCount st) k"
proof (cases "countOf (depCount st) (Package_Fingerprint p) = 0")
  case False
  then show ?thesis by (simp add: visit_def)
next
  case True
  let ?dc1 = "(depCount st)(Package_Fingerprint p \<mapsto> countOf (depCount st) (Package_Fingerprint p) - 1)"
  have "countOf (notifyUsers ?dc1 (usersOf rd (Package_Fingerprint p))) k \<le> countOf ?dc1 k"
    by (rule notifyUsers_le)
  also have "\<dots> \<le> countOf (depCount st) k" by (simp add: countOf_def)
  finally show ?thesis using True by (simp add: visit_def Let_def)
qed

lemma foldl_visit_le:
  "countOf (depCount (foldl (visit rd) st ps)) k \<le> countOf (depCount st) k"
proof (induction ps arbitrary: st)
  case Nil
  show ?case by simp
next
  case (Cons p ps)
  have "countOf (depCount (foldl (visit rd) (visit rd st p) ps)) k
          \<le> countOf (depCount (visit rd st p)) k" by (rule Cons.IH)
  also have "\<dots> \<le> countOf (depCount st) k" by (rule visit_le)
  finally show ?case by simp
qed

lemma visit_fires:
  assumes "countOf (depCount st) (Package_Fingerprint p) = 0"
  shows "countOf (depCount (visit rd st p)) (Package_Fingerprint p) < 0"
proof -
  let ?dc1 = "(depCount st)(Package_Fingerprint p \<mapsto> countOf (depCount st) (Package_Fingerprint p) - 1)"
  have "countOf (notifyUsers ?dc1 (usersOf rd (Package_Fingerprint p))) (Package_Fingerprint p)
          \<le> countOf ?dc1 (Package_Fingerprint p)"
    by (rule notifyUsers_le)
  also have "\<dots> < 0" using assms by (simp add: countOf_def)
  finally show ?thesis using assms by (simp add: visit_def Let_def)
qed

lemma visit_keepRunning:
  "keepRunning (visit rd st p) \<Longrightarrow>
   keepRunning st \<or> countOf (depCount st) (Package_Fingerprint p) = 0"
  by (auto simp: visit_def Let_def split: if_splits)

lemma foldl_visit_progress:
  "keepRunning (foldl (visit rd) st ps) \<Longrightarrow>
   keepRunning st \<or>
   (\<exists>p\<in>set ps. 0 \<le> countOf (depCount st) (Package_Fingerprint p)
               \<and> countOf (depCount (foldl (visit rd) st ps)) (Package_Fingerprint p) < 0)"
proof (induction ps arbitrary: st)
  case Nil
  then show ?case by simp
next
  case (Cons p ps)
  from Cons.prems have "keepRunning (foldl (visit rd) (visit rd st p) ps)" by simp
  from Cons.IH[OF this] consider
      (a) "keepRunning (visit rd st p)"
    | (b) "\<exists>q\<in>set ps. 0 \<le> countOf (depCount (visit rd st p)) (Package_Fingerprint q)
               \<and> countOf (depCount (foldl (visit rd) (visit rd st p) ps)) (Package_Fingerprint q) < 0"
    by blast
  then show ?case
  proof cases
    case a
    show ?thesis
    proof (cases "keepRunning st")
      case True
      then show ?thesis by simp
    next
      case False
      with a visit_keepRunning have z: "countOf (depCount st) (Package_Fingerprint p) = 0" by blast
      have "countOf (depCount (foldl (visit rd) (visit rd st p) ps)) (Package_Fingerprint p)
              \<le> countOf (depCount (visit rd st p)) (Package_Fingerprint p)"
        by (rule foldl_visit_le)
      also have "\<dots> < 0" using z by (rule visit_fires)
      finally show ?thesis using z by auto
    qed
  next
    case b
    then obtain q where q: "q \<in> set ps"
      "0 \<le> countOf (depCount (visit rd st p)) (Package_Fingerprint q)"
      "countOf (depCount (foldl (visit rd) (visit rd st p) ps)) (Package_Fingerprint q) < 0"
      by blast
    have "countOf (depCount (visit rd st p)) (Package_Fingerprint q)
            \<le> countOf (depCount st) (Package_Fingerprint q)" by (rule visit_le)
    with q show ?thesis by auto
  qed
qed

lemma filter_length_less:
  assumes "\<And>x. x \<in> set xs \<Longrightarrow> Q x \<Longrightarrow> P x" and "\<exists>x\<in>set xs. P x \<and> \<not> Q x"
  shows "length (filter Q xs) < length (filter P xs)"
  using assms
proof (induction xs)
  case Nil
  then show ?case by simp
next
  case (Cons x xs)
  have le: "length (filter Q xs) \<le> length (filter P xs)"
  proof -
    have "filter Q xs = filter Q (filter P xs)"
      using Cons.prems(1) by (auto simp: filter_filter intro!: filter_cong)
    then show ?thesis by (metis length_filter_le)
  qed
  show ?case
  proof (cases "P x \<and> \<not> Q x")
    case True
    then show ?thesis using le by simp
  next
    case False
    with Cons.prems(2) have "\<exists>y\<in>set xs. P y \<and> \<not> Q y" by auto
    with Cons.IH Cons.prems(1) have "length (filter Q xs) < length (filter P xs)" by auto
    then show ?thesis using Cons.prems(1)[of x] by auto
  qed
qed

lemma pass_decreases:
  assumes "keepRunning (pass rd ps st)"
  shows "unqueued (depCount (pass rd ps st)) ps < unqueued (depCount st) ps"
proof -
  let ?st0 = "st\<lparr>keepRunning := False\<rparr>"
  from assms have "keepRunning (foldl (visit rd) ?st0 ps)" by (simp add: pass_def)
  from foldl_visit_progress[OF this]
  obtain p where p: "p \<in> set ps" "0 \<le> countOf (depCount st) (Package_Fingerprint p)"
    "countOf (depCount (pass rd ps st)) (Package_Fingerprint p) < 0"
    by (auto simp: pass_def)
  have mono: "\<And>k. countOf (depCount (pass rd ps st)) k \<le> countOf (depCount st) k"
    using foldl_visit_le[of rd ?st0 ps] by (simp add: pass_def)
  show ?thesis unfolding unqueued_def
  proof (rule filter_length_less)
    fix x assume "x \<in> set ps" "0 \<le> countOf (depCount (pass rd ps st)) (Package_Fingerprint x)"
    then show "0 \<le> countOf (depCount st) (Package_Fingerprint x)"
      using mono[of "Package_Fingerprint x"] by linarith
  next
    show "\<exists>x\<in>set ps. 0 \<le> countOf (depCount st) (Package_Fingerprint x)
            \<and> \<not> 0 \<le> countOf (depCount (pass rd ps st)) (Package_Fingerprint x)"
      using p by (intro bexI[of _ p]) auto
  qed
qed

function bucketLoop :: "revMap \<Rightarrow> package list \<Rightarrow> bucketState \<Rightarrow> bucketState" where
  "bucketLoop revDeps packages st =
     (let st' = pass revDeps packages st
      in if keepRunning st' then bucketLoop revDeps packages st' else st')"
  by pat_completeness auto
termination
  by (relation "measure (\<lambda>(revDeps, packages, st). unqueued (depCount st) packages)")
     (auto simp: pass_decreases)

declare bucketLoop.simps [simp del]

definition createDepBuckets :: "package list \<Rightarrow> package list" where
  "createDepBuckets packages =
     (case recordDeps packages of (depCount0, revDeps) \<Rightarrow>
        let st = bucketLoop revDeps packages
                   \<lparr>depCount = depCount0, keepRunning = True, rubies = [], buckets = []\<rparr>
        in rubies st @ buckets st)"


subsection \<open>\<open>Compile\<close>: removing compiled packages, the synchronizer\<close>

text \<open>
  The workers run concurrently; what the synchronizer loop of \<open>Compile\<close> sees of them
  is the sequence of results received from \<open>doneCh\<close> until it is closed. That sequence
  is the parameter \<open>workers\<close> (a function of the queue handed to the worker pool).
  \<open>isPackageCompiledHarness\<close> reads the disk and \<open>sort.Sort(packages)\<close> uses the order
  of \<open>model.Packages\<close>; both are parameters. \<open>sync_err\<close> of the final state is the variable \<open>err\<close>, the error
  \<open>Compile\<close> returns; a panic is the left summand.
\<close>

datatype compile_error = errWorkerAbort | OtherError string

definition errorText :: "compile_error \<Rightarrow> string" where
  "errorText e = (case e of errWorkerAbort \<Rightarrow> ''worker aborted'' | OtherError m \<Rightarrow> m)"

record compileResult =
  result_pkg :: package
  result_err :: "compile_error option"

datatype ui_line =
    NoPackageNeeded
  | ResultSuccess string string
  | ResultFailure string string compile_error

record syncState =
  signalDependencies :: signals
  ui :: "ui_line list"
  sync_err :: "compile_error option"
  killed :: bool
  killCh :: chan

fun removeCompiledPackages ::
  "(package \<Rightarrow> compile_error + bool) \<Rightarrow> signals \<Rightarrow> package list \<Rightarrow> package list
     \<Rightarrow> panic + signals \<times> (compile_error + package list)" where
  "removeCompiledPackages isPackageCompiled sd culledPackages [] = Inr (sd, Inr culledPackages)"
| "removeCompiledPackages isPackageCompiled sd culledPackages (pkg # packages) =
     (case isPackageCompiled pkg of
        Inl e \<Rightarrow> Inr (sd, Inl e)
      | Inr True \<Rightarrow>
          (case close (sd (Package_Fingerprint pkg)) of
             Inl p \<Rightarrow> Inl p
           | Inr ch \<Rightarrow> removeCompiledPackages isPackageCompiled
                        (sd(Package_Fingerprint pkg \<mapsto> ch)) culledPackages packages)
      | Inr False \<Rightarrow>
          removeCompiledPackages isPackageCompiled sd (culledPackages @ [pkg]) packages)"

definition receive :: "syncState \<Rightarrow> compileResult \<Rightarrow> panic + syncState" where
  "receive st result =
     (case result_err result of
        None \<Rightarrow>
          (case close (signalDependencies st (Package_Fingerprint (result_pkg result))) of
             Inl p \<Rightarrow> Inl p
           | Inr ch \<Rightarrow>
               Inr (st\<lparr>signalDependencies :=
                          (signalDependencies st)(Package_Fingerprint (result_pkg result) \<mapsto> ch),
                        ui := ui st @ [ResultSuccess (Package_Release_Name (result_pkg result))
                                                     (Package_Name (result_pkg result))]\<rparr>))
      | Some e \<Rightarrow>
          (let st1 = st\<lparr>ui := ui st @ [ResultFailure (Package_Release_Name (result_pkg result))
                                                       (Package_Name (result_pkg result)) e],
                            sync_err := Some e\<rparr>
           in if \<not> killed st1
              then (case close (Some (killCh st1)) of
                      Inl p \<Rightarrow> Inl p
                    | Inr ch \<Rightarrow> Inr (st1\<lparr>killCh := ch, killed := True\<rparr>))
              else Inr st1))"

fun synchronizer :: "syncState \<Rightarrow> compileResult list \<Rightarrow> panic + syncState" where
  "synchronizer st [] = Inr st"
| "synchronizer st (result # doneCh) =
     (case receive st result of Inl p \<Rightarrow> Inl p | Inr st' \<Rightarrow> synchronizer st' doneCh)"

definition Compile ::
  "(package \<Rightarrow> compile_error + bool) \<Rightarrow> (package list \<Rightarrow> package list)
     \<Rightarrow> (package list \<Rightarrow> compileResult list)
     \<Rightarrow> signals \<Rightarrow> release list \<Rightarrow> instanceGroup_jobs list option \<Rightarrow> panic + syncState" where
  "Compile isPackageCompiled sortPackages workers sd releases instanceGroups =
     (case gatherPackages sd releases instanceGroups of (sd1, gathered) \<Rightarrow>
        case removeCompiledPackages isPackageCompiled sd1 [] gathered of
          Inl p \<Rightarrow> Inl p
        | Inr (sd2, Inl e) \<Rightarrow>
            Inr \<lparr>signalDependencies = sd2, ui = [],
                 sync_err = Some (OtherError (''failed to remove compiled packages: '' @ errorText e)),
                 killed = False, killCh = Open\<rparr>
        | Inr (sd2, Inr packages) \<Rightarrow>
            if packages = []
            then Inr \<lparr>signalDependencies = sd2, ui = [NoPackageNeeded], sync_err = None,
                      killed = False, killCh = Open\<rparr>
            else synchronizer
                   \<lparr>signalDependencies = sd2, ui = [], sync_err = None, killed = False, killCh = Open\<rparr>
                   (workers (createDepBuckets (sortPackages packages))))"

text \<open>A result is a failure when its error is not nil.\<close>

definition failed :: "compileResult \<Rightarrow> bool" where
  "failed r = (result_err r \<noteq> None)"

text \<open>Sample packages: the dependency chain \<open>A \<leftarrow> B \<leftarrow> C\<close> and a ruby package, all of
  release \<open>r1\<close>.\<close>

definition pkgA :: package where "pkgA = Package ''A'' ''fA'' ''r1'' []"
definition pkgB :: package where "pkgB = Package ''B'' ''fB'' ''r1'' [pkgA]"
definition pkgC :: package where "pkgC = Package ''C'' ''fC'' ''r1'' [pkgB]"
definition pkgRuby :: package where "pkgRuby = Package ''ruby-2.6'' ''fR'' ''r1'' []"

text \<open>The results of a run in which \<open>A\<close> succeeds, \<open>B\<close> fails and \<open>C\<close>, waiting for
  \<open>B\<close>, sees the kill signal and aborts.\<close>

definition resultsABC :: "compileResult list" where
  "resultsABC = [\<lparr>result_pkg = pkgA, result_err = None\<rparr>,
                 \<lparr>result_pkg = pkgB, result_err = Some (OtherError ''boom'')\<rparr>,
                 \<lparr>result_pkg = pkgC, result_err = Some errWorkerAbort\<rparr>]"

subsection \<open>\<open>gatherPackages\<close>: one package per fingerprint\<close>

text \<open>
  \<open>firstNew sd xs i\<close>: position \<open>i\<close> of \<open>xs\<close> holds the first package of its
  fingerprint, and that fingerprint has no signal channel in \<open>sd\<close> yet.
\<close>

definition firstNew :: "signals \<Rightarrow> package list \<Rightarrow> nat \<Rightarrow> bool" where
  "firstNew sd xs i =
     (i < length xs \<and> sd (Package_Fingerprint (xs ! i)) = None
      \<and> list_all (\<lambda>q. Package_Fingerprint q \<noteq> Package_Fingerprint (xs ! i)) (take i xs))"

text \<open>The invariant of the queue under construction: no fingerprint twice, and the
  counter of every queued package is negative.\<close>

definition emittedOnce :: "bucketState \<Rightarrow> bool" where
  "emittedOnce st \<longleftrightarrow>
     distinct (map Package_Fingerprint (rubies st @ buckets st))
     \<and> list_all (\<lambda>p. countOf (depCount st) (Package_Fingerprint p) < 0) (rubies st @ buckets st)"

text \<open>Two releases that share the fingerprint \<open>fA\<close>.\<close>

definition pkgA2 :: package where "pkgA2 = Package ''A-copy'' ''fA'' ''r2'' []"
definition pkgD :: package where "pkgD = Package ''D'' ''fD'' ''r2'' [pkgA2]"

definition release1 :: release where
  "release1 = \<lparr>Release_Name = ''r1'', Release_Packages = [pkgA, pkgB]\<rparr>"
definition release2 :: release where
  "release2 = \<lparr>Release_Name = ''r2'', Release_Packages = [pkgA2, pkgD]\<rparr>"

lemma gatherPackages_flat:
  "gatherPackages sd releases igs
     = foldl gatherStep (sd, []) (concat (map (releasePackagesOf igs) releases))"
proof -
  have "foldl (\<lambda>st rel. foldl gatherStep st (releasePackagesOf igs rel)) st releases
          = foldl gatherStep st (concat (map (releasePackagesOf igs) releases))" for st
    by (induction releases arbitrary: st) simp_all
  then show ?thesis by (simp add: gatherPackages_def)
qed

lemma firstNew_snoc:
  "firstNew sd (xs @ [x]) i =
     (firstNew sd xs i \<or>
      (i = length xs \<and> sd (Package_Fingerprint x) = None
       \<and> Package_Fingerprint x \<notin> Package_Fingerprint ` set xs))"
proof -
  consider "i < length xs" | "i = length xs" | "length xs < i" by linarith
  then show ?thesis
  proof cases
    case 1
    then show ?thesis by (simp add: firstNew_def nth_append)
  next
    case 2
    then show ?thesis by (auto simp: firstNew_def list_all_iff image_iff)
  next
    case 3
    then show ?thesis by (simp add: firstNew_def)
  qed
qed

lemma firstNew_snoc_ex:
  "(\<exists>i. firstNew sd (xs @ [x]) i \<and> (xs @ [x]) ! i = p) \<longleftrightarrow>
   (\<exists>i. firstNew sd xs i \<and> xs ! i = p)
   \<or> (sd (Package_Fingerprint x) = None
       \<and> Package_Fingerprint x \<notin> Package_Fingerprint ` set xs \<and> p = x)"
proof -
  have a: "firstNew sd xs i \<Longrightarrow> (xs @ [x]) ! i = xs ! i" for i
    by (simp add: firstNew_def nth_append)
  show ?thesis
    unfolding firstNew_snoc using a by (auto simp: firstNew_def[of sd xs "length xs"])
qed

lemma foldl_gatherStep:
  "distinct (map Package_Fingerprint (snd (foldl gatherStep (sd, []) xs)))
   \<and> (\<forall>p. p \<in> set (snd (foldl gatherStep (sd, []) xs)) \<longleftrightarrow> (\<exists>i. firstNew sd xs i \<and> xs ! i = p))
   \<and> (\<forall>k. fst (foldl gatherStep (sd, []) xs) k
           = (if sd k = None \<and> k \<in> Package_Fingerprint ` set xs then Some Open else sd k))"
proof (induction xs rule: rev_induct)
  case Nil
  show ?case by (simp add: firstNew_def)
next
  case (snoc x xs)
  obtain sd' res where st: "foldl gatherStep (sd, []) xs = (sd', res)" by (cases "foldl gatherStep (sd, []) xs")
  from snoc st have d: "distinct (map Package_Fingerprint res)"
    and m: "\<And>p. p \<in> set res \<longleftrightarrow> (\<exists>i. firstNew sd xs i \<and> xs ! i = p)"
    and s: "\<And>k. sd' k = (if sd k = None \<and> k \<in> Package_Fingerprint ` set xs then Some Open else sd k)"
    by auto
  have sub: "set res \<subseteq> set xs"
    using m by (auto simp: firstNew_def)
  show ?case
  proof (cases "sd' (Package_Fingerprint x) = None")
    case True
    then have new: "sd (Package_Fingerprint x) = None" "Package_Fingerprint x \<notin> Package_Fingerprint ` set xs"
      using s[of "Package_Fingerprint x"] by (auto split: if_splits)
    have step: "foldl gatherStep (sd, []) (xs @ [x]) = (sd'(Package_Fingerprint x \<mapsto> Open), res @ [x])"
      using True by (simp add: st gatherStep_def)
    have "Package_Fingerprint x \<notin> Package_Fingerprint ` set res" using new(2) sub by auto
    with d have d': "distinct (map Package_Fingerprint (res @ [x]))" by simp
    have m': "\<And>p. p \<in> set (res @ [x]) \<longleftrightarrow> (\<exists>i. firstNew sd (xs @ [x]) i \<and> (xs @ [x]) ! i = p)"
    proof -
      fix p
      show "p \<in> set (res @ [x]) \<longleftrightarrow> (\<exists>i. firstNew sd (xs @ [x]) i \<and> (xs @ [x]) ! i = p)"
        using new m[of p] by (auto simp: firstNew_snoc_ex)
    qed
    have s': "\<And>k. (sd'(Package_Fingerprint x \<mapsto> Open)) k
                = (if sd k = None \<and> k \<in> Package_Fingerprint ` set (xs @ [x]) then Some Open else sd k)"
      using s new by auto
    show ?thesis unfolding step using d' m' s' by simp
  next
    case False
    then have old: "sd (Package_Fingerprint x) \<noteq> None \<or> Package_Fingerprint x \<in> Package_Fingerprint ` set xs"
      using s[of "Package_Fingerprint x"] by (auto split: if_splits)
    have step: "foldl gatherStep (sd, []) (xs @ [x]) = (sd', res)"
      using False by (simp add: st gatherStep_def)
    have m': "\<And>p. p \<in> set res \<longleftrightarrow> (\<exists>i. firstNew sd (xs @ [x]) i \<and> (xs @ [x]) ! i = p)"
    proof -
      fix p
      show "p \<in> set res \<longleftrightarrow> (\<exists>i. firstNew sd (xs @ [x]) i \<and> (xs @ [x]) ! i = p)"
        using old m[of p] by (auto simp: firstNew_snoc_ex)
    qed
    have s': "\<And>k. sd' k
                = (if sd k = None \<and> k \<in> Package_Fingerprint ` set (xs @ [x]) then Some Open else sd k)"
      using s old by auto
    show ?thesis unfolding step using d m' s' by simp
  qed
qed

lemma visit_lists:
  "countOf (depCount st) (Package_Fingerprint p) \<noteq> 0 \<Longrightarrow> visit rd st p = st"
  "countOf (depCount st) (Package_Fingerprint p) = 0 \<Longrightarrow> prefix ''ruby-2.'' (Package_Name p) \<Longrightarrow>
     rubies (visit rd st p) = rubies st @ [p] \<and> buckets (visit rd st p) = buckets st"
  "countOf (depCount st) (Package_Fingerprint p) = 0 \<Longrightarrow> \<not> prefix ''ruby-2.'' (Package_Name p) \<Longrightarrow>
     rubies (visit rd st p) = rubies st \<and> buckets (visit rd st p) = buckets st @ [p]"
  by (simp_all add: visit_def Let_def)

lemma visit_emittedOnce:
  assumes "emittedOnce st"
  shows "emittedOnce (visit rd st p)"
proof (cases "countOf (depCount st) (Package_Fingerprint p) = 0")
  case False
  then show ?thesis using assms by (simp add: visit_lists(1))
next
  case True
  have neg: "\<And>q. countOf (depCount st) (Package_Fingerprint q) < 0 \<Longrightarrow>
              countOf (depCount (visit rd st p)) (Package_Fingerprint q) < 0"
    using visit_le[of rd st p] by (meson le_less_trans)
  have fresh: "Package_Fingerprint p \<notin> Package_Fingerprint ` set (rubies st @ buckets st)"
  proof
    assume "Package_Fingerprint p \<in> Package_Fingerprint ` set (rubies st @ buckets st)"
    then obtain q where q: "q \<in> set (rubies st @ buckets st)"
      "Package_Fingerprint q = Package_Fingerprint p"
      by (metis imageE)
    from assms q(1) have "countOf (depCount st) (Package_Fingerprint q) < 0"
      by (simp add: emittedOnce_def list_all_iff)
    with q(2) True show False by simp
  qed
  have pneg: "countOf (depCount (visit rd st p)) (Package_Fingerprint p) < 0"
    using True by (rule visit_fires)
  show ?thesis
  proof (cases "prefix ''ruby-2.'' (Package_Name p)")
    case r: True
    from visit_lists(2)[OF True r] have l: "rubies (visit rd st p) = rubies st @ [p]"
      "buckets (visit rd st p) = buckets st" by auto
    show ?thesis unfolding emittedOnce_def l
      using assms fresh pneg neg by (auto simp: emittedOnce_def list_all_iff)
  next
    case r: False
    from visit_lists(3)[OF True r] have l: "rubies (visit rd st p) = rubies st"
      "buckets (visit rd st p) = buckets st @ [p]" by auto
    show ?thesis unfolding emittedOnce_def l
      using assms fresh pneg neg by (auto simp: emittedOnce_def list_all_iff)
  qed
qed

lemma foldl_visit_emittedOnce:
  "emittedOnce st \<Longrightarrow> emittedOnce (foldl (visit rd) st ps)"
  by (induction ps arbitrary: st) (simp_all add: visit_emittedOnce)

lemma pass_emittedOnce: "emittedOnce st \<Longrightarrow> emittedOnce (pass rd ps st)"
  unfolding pass_def by (rule foldl_visit_emittedOnce) (simp add: emittedOnce_def)

lemma bucketLoop_emittedOnce: "emittedOnce st \<Longrightarrow> emittedOnce (bucketLoop rd ps st)"
proof (induction rd ps st rule: bucketLoop.induct)
  case (1 rd ps st)
  show ?case
  proof (cases "keepRunning (pass rd ps st)")
    case True
    with 1 pass_emittedOnce show ?thesis by (subst bucketLoop.simps) (simp add: Let_def)
  next
    case False
    with 1 pass_emittedOnce show ?thesis by (subst bucketLoop.simps) (simp add: Let_def)
  qed
qed

lemma createDepBuckets_distinct:
  "distinct (map Package_Fingerprint (createDepBuckets packages))"
proof -
  obtain dc rd where r: "recordDeps packages = (dc, rd)" by (cases "recordDeps packages")
  have "emittedOnce \<lparr>depCount = dc, keepRunning = True, rubies = [], buckets = []\<rparr>"
    by (simp add: emittedOnce_def)
  then have "emittedOnce (bucketLoop rd packages
                \<lparr>depCount = dc, keepRunning = True, rubies = [], buckets = []\<rparr>)"
    by (rule bucketLoop_emittedOnce)
  then show ?thesis by (simp add: createDepBuckets_def r emittedOnce_def Let_def)
qed

text \<open>
  Claim C4: \<open>gatherPackages\<close> keeps, of the packages of all releases in the order they
  are met, exactly the first one of each fingerprint that has no signal channel yet, and
  creates that channel (open); so the gathered packages have pairwise different
  fingerprints. The queue \<open>createDepBuckets\<close> builds never holds two packages of the
  same fingerprint either.
\<close>

theorem gatherPackages_one_per_fingerprint:
  "distinct (map Package_Fingerprint (snd (gatherPackages sd releases igs)))
   \<and> (\<forall>p. p \<in> set (snd (gatherPackages sd releases igs)) \<longleftrightarrow>
          (\<exists>i. firstNew sd (concat (map (releasePackagesOf igs) releases)) i
               \<and> concat (map (releasePackagesOf igs) releases) ! i = p))
   \<and> (\<forall>k. fst (gatherPackages sd releases igs) k
          = (if sd k = None
                \<and> k \<in> Package_Fingerprint ` set (concat (map (releasePackagesOf igs) releases))
             then Some Open else sd k))
   \<and> distinct (map Package_Fingerprint (createDepBuckets packages))"
  unfolding gatherPackages_flat
  using foldl_gatherStep[of sd "concat (map (releasePackagesOf igs) releases)"]
        createDepBuckets_distinct[of packages]
  by blast

theorem gatherPackages_one_per_fingerprint_witness:
  "snd (gatherPackages Map.empty [release1, release2] None) = [pkgA, pkgB, pkgD]
   \<and> distinct (map Package_Fingerprint (snd (gatherPackages Map.empty [release1, release2] None)))
   \<and> fst (gatherPackages Map.empty [release1, release2] None) ''fA'' = Some Open"
  using gatherPackages_one_per_fingerprint [of Map.empty "[release1, release2]" None "[]"]
  by (simp add: gatherPackages_def releasePackagesOf_def gatherStep_def release1_def release2_def
      pkgA_def pkgB_def pkgA2_def pkgD_def)

subsection \<open>\<open>Compile\<close>: the error returned, the log, the kill channel\<close>

text \<open>
  The log line the synchronizer prints for a result, the fingerprints of the successful
  results, and the state in which the synchronizer loop of \<open>Compile\<close> starts.
\<close>

definition resultLine :: "compileResult \<Rightarrow> ui_line" where
  "resultLine r =
     (case result_err r of
        None \<Rightarrow> ResultSuccess (Package_Release_Name (result_pkg r)) (Package_Name (result_pkg r))
      | Some e \<Rightarrow> ResultFailure (Package_Release_Name (result_pkg r)) (Package_Name (result_pkg r)) e)"

definition succeeded :: "compileResult list \<Rightarrow> string set" where
  "succeeded rs = set (map (\<lambda>r. Package_Fingerprint (result_pkg r)) (filter (\<lambda>r. \<not> failed r) rs))"

definition startState :: "signals \<Rightarrow> syncState" where
  "startState sd = \<lparr>signalDependencies = sd, ui = [], sync_err = None, killed = False, killCh = Open\<rparr>"

lemma synchronizer_run:
  assumes "\<forall>r\<in>set rs. \<not> failed r \<longrightarrow>
             signalDependencies st (Package_Fingerprint (result_pkg r)) = Some Open"
    and "distinct (map (\<lambda>r. Package_Fingerprint (result_pkg r)) (filter (\<lambda>r. \<not> failed r) rs))"
    and "killed st \<or> killCh st = Open"
  shows "\<exists>st'. synchronizer st rs = Inr st'
           \<and> sync_err st' = (if filter failed rs = [] then sync_err st
                        else result_err (last (filter failed rs)))
           \<and> ui st' = ui st @ map resultLine rs
           \<and> killed st' = (killed st \<or> filter failed rs \<noteq> [])
           \<and> killCh st' = (if \<not> killed st \<and> filter failed rs \<noteq> [] then Closed else killCh st)
           \<and> (\<forall>k. signalDependencies st' k
                  = (if k \<in> succeeded rs then Some Closed else signalDependencies st k))"
  using assms
proof (induction rs arbitrary: st)
  case Nil
  then show ?case by (simp add: succeeded_def)
next
  case (Cons r rs)
  show ?case
  proof (cases "failed r")
    case True
    then obtain e where e: "result_err r = Some e" by (auto simp: failed_def)
    define st1 where "st1 = st\<lparr>ui := ui st @ [ResultFailure (Package_Release_Name (result_pkg r))
                                                       (Package_Name (result_pkg r)) e],
                            sync_err := Some e\<rparr>"
    define st2 where "st2 = (if \<not> killed st1 then st1\<lparr>killCh := Closed, killed := True\<rparr> else st1)"
    have rec: "receive st r = Inr st2"
      using Cons.prems(3) by (auto simp: receive_def e st1_def st2_def Let_def close_def)
    have sd: "signalDependencies st2 = signalDependencies st"
      by (simp add: st2_def st1_def)
    from Cons.prems have
      "\<forall>r\<in>set rs. \<not> failed r \<longrightarrow>
          signalDependencies st2 (Package_Fingerprint (result_pkg r)) = Some Open"
      "distinct (map (\<lambda>r. Package_Fingerprint (result_pkg r)) (filter (\<lambda>r. \<not> failed r) rs))"
      "killed st2 \<or> killCh st2 = Open"
      using True by (auto simp: sd st2_def st1_def)
    from Cons.IH[OF this] obtain st' where st':
      "synchronizer st2 rs = Inr st'"
      "sync_err st' = (if filter failed rs = [] then sync_err st2 else result_err (last (filter failed rs)))"
      "ui st' = ui st2 @ map resultLine rs"
      "killed st' = (killed st2 \<or> filter failed rs \<noteq> [])"
      "killCh st' = (if \<not> killed st2 \<and> filter failed rs \<noteq> [] then Closed else killCh st2)"
      "\<forall>k. signalDependencies st' k
                  = (if k \<in> succeeded rs then Some Closed else signalDependencies st2 k)"
      by blast
    have k2: "killed st2" "sync_err st2 = Some e" "ui st2 = ui st @ [resultLine r]"
      "killCh st2 = (if killed st then killCh st else Closed)"
      by (auto simp: st2_def st1_def resultLine_def e)
    have su: "succeeded (r # rs) = succeeded rs" using True by (auto simp: succeeded_def)
    show ?thesis
      using st' k2 rec True e by (auto simp: failed_def su sd)
  next
    case False
    then have ne: "result_err r = None" by (simp add: failed_def)
    let ?fp = "Package_Fingerprint (result_pkg r)"
    from Cons.prems(1) False have op: "signalDependencies st ?fp = Some Open" by simp
    define st2 where "st2 = st\<lparr>signalDependencies := (signalDependencies st)(?fp \<mapsto> Closed),
                        ui := ui st @ [ResultSuccess (Package_Release_Name (result_pkg r))
                                                     (Package_Name (result_pkg r))]\<rparr>"
    have rec: "receive st r = Inr st2"
      by (simp add: receive_def ne op close_def st2_def)
    from Cons.prems(2) False have
      nf: "\<forall>r'\<in>set rs. \<not> failed r' \<longrightarrow> Package_Fingerprint (result_pkg r') \<noteq> ?fp"
      and d: "distinct (map (\<lambda>r. Package_Fingerprint (result_pkg r)) (filter (\<lambda>r. \<not> failed r) rs))"
      by (auto simp: image_iff)
    have o: "\<forall>r'\<in>set rs. \<not> failed r' \<longrightarrow>
            signalDependencies st2 (Package_Fingerprint (result_pkg r')) = Some Open"
      using Cons.prems(1) nf by (auto simp: st2_def)
    have kk: "killed st2 \<or> killCh st2 = Open" using Cons.prems(3) by (simp add: st2_def)
    from Cons.IH[OF o d kk] obtain st' where st':
      "synchronizer st2 rs = Inr st'"
      "sync_err st' = (if filter failed rs = [] then sync_err st2 else result_err (last (filter failed rs)))"
      "ui st' = ui st2 @ map resultLine rs"
      "killed st' = (killed st2 \<or> filter failed rs \<noteq> [])"
      "killCh st' = (if \<not> killed st2 \<and> filter failed rs \<noteq> [] then Closed else killCh st2)"
      "\<forall>k. signalDependencies st' k
                  = (if k \<in> succeeded rs then Some Closed else signalDependencies st2 k)"
      by blast
    have k2: "killed st2 = killed st" "sync_err st2 = sync_err st" "ui st2 = ui st @ [resultLine r]"
      "killCh st2 = killCh st"
      "signalDependencies st2 = (signalDependencies st)(?fp \<mapsto> Closed)"
      by (auto simp: st2_def resultLine_def ne)
    have su: "succeeded (r # rs) = insert ?fp (succeeded rs)"
      using False by (auto simp: succeeded_def)
    show ?thesis
      using st' k2 rec False by (auto simp: su)
  qed
qed

lemma removeCompiledPackages_open:
  assumes "distinct (map Package_Fingerprint (culled @ ps))"
    and "\<forall>p\<in>set (culled @ ps). sd (Package_Fingerprint p) = Some Open"
    and "removeCompiledPackages isC sd culled ps = Inr (sd', Inr pkgs)"
  shows "set pkgs \<subseteq> set (culled @ ps) \<and> (\<forall>p\<in>set pkgs. sd' (Package_Fingerprint p) = Some Open)"
  using assms
proof (induction ps arbitrary: sd culled)
  case Nil
  then show ?case by auto
next
  case (Cons p ps)
  show ?case
  proof (cases "isC p")
    case (Inl e)
    with Cons.prems(3) show ?thesis by simp
  next
    case (Inr b)
    show ?thesis
    proof (cases b)
      case False
      with Inr Cons.prems(3)
      have r: "removeCompiledPackages isC sd (culled @ [p]) ps = Inr (sd', Inr pkgs)" by simp
      have "distinct (map Package_Fingerprint ((culled @ [p]) @ ps))"
        "\<forall>q\<in>set ((culled @ [p]) @ ps). sd (Package_Fingerprint q) = Some Open"
        using Cons.prems(1,2) by auto
      from Cons.IH[OF this r] show ?thesis by auto
    next
      case True
      from Cons.prems(2) have op: "sd (Package_Fingerprint p) = Some Open" by simp
      with True Inr Cons.prems(3)
      have r: "removeCompiledPackages isC (sd(Package_Fingerprint p \<mapsto> Closed)) culled ps
                 = Inr (sd', Inr pkgs)"
        by (simp add: close_def)
      have d: "distinct (map Package_Fingerprint (culled @ ps))"
        using Cons.prems(1) by auto
      have "\<forall>q\<in>set (culled @ ps). Package_Fingerprint q \<noteq> Package_Fingerprint p"
        using Cons.prems(1) by (auto simp: image_iff)
      then have o: "\<forall>q\<in>set (culled @ ps).
               (sd(Package_Fingerprint p \<mapsto> Closed)) (Package_Fingerprint q) = Some Open"
        using Cons.prems(2) by auto
      from Cons.IH[OF d o r] show ?thesis by auto
    qed
  qed
qed

lemma visit_subset:
  "set (rubies (visit rd st p) @ buckets (visit rd st p)) \<subseteq> insert p (set (rubies st @ buckets st))"
  by (auto simp: visit_def Let_def)

lemma foldl_visit_subset:
  "set (rubies (foldl (visit rd) st ps) @ buckets (foldl (visit rd) st ps))
     \<subseteq> set ps \<union> set (rubies st @ buckets st)"
proof (induction ps arbitrary: st)
  case Nil
  show ?case by simp
next
  case (Cons p ps)
  have "set (rubies (foldl (visit rd) (visit rd st p) ps) @ buckets (foldl (visit rd) (visit rd st p) ps))
          \<subseteq> set ps \<union> set (rubies (visit rd st p) @ buckets (visit rd st p))"
    by (rule Cons.IH)
  also have "\<dots> \<subseteq> set ps \<union> insert p (set (rubies st @ buckets st))"
    using visit_subset[of rd st p] by blast
  finally show ?case by auto
qed

lemma bucketLoop_subset:
  "set (rubies (bucketLoop rd ps st) @ buckets (bucketLoop rd ps st))
     \<subseteq> set ps \<union> set (rubies st @ buckets st)"
proof (induction rd ps st rule: bucketLoop.induct)
  case (1 rd ps st)
  have p: "set (rubies (pass rd ps st) @ buckets (pass rd ps st)) \<subseteq> set ps \<union> set (rubies st @ buckets st)"
    using foldl_visit_subset[of rd "st\<lparr>keepRunning := False\<rparr>" ps] by (simp add: pass_def)
  show ?case
  proof (cases "keepRunning (pass rd ps st)")
    case True
    have "bucketLoop rd ps st = bucketLoop rd ps (pass rd ps st)"
      using True by (subst bucketLoop.simps) (simp add: Let_def)
    moreover have "set (rubies (bucketLoop rd ps (pass rd ps st)) @ buckets (bucketLoop rd ps (pass rd ps st)))
          \<subseteq> set ps \<union> set (rubies (pass rd ps st) @ buckets (pass rd ps st))"
      using 1 True by simp
    ultimately show ?thesis using p by auto
  next
    case False
    have "bucketLoop rd ps st = pass rd ps st"
      using False by (subst bucketLoop.simps) (simp add: Let_def)
    then show ?thesis using p by simp
  qed
qed

lemma createDepBuckets_subset: "set (createDepBuckets packages) \<subseteq> set packages"
proof -
  obtain dc rd where r: "recordDeps packages = (dc, rd)" by (cases "recordDeps packages")
  show ?thesis
    using bucketLoop_subset[of rd packages "\<lparr>depCount = dc, keepRunning = True, rubies = [], buckets = []\<rparr>"]
    by (simp add: createDepBuckets_def r Let_def)
qed

lemma gatherPackages_open:
  assumes "gatherPackages sd releases igs = (sd1, gathered)"
  shows "distinct (map Package_Fingerprint gathered)
         \<and> (\<forall>p\<in>set gathered. sd1 (Package_Fingerprint p) = Some Open)"
proof -
  let ?all = "concat (map (releasePackagesOf igs) releases)"
  from assms have f: "foldl gatherStep (sd, []) ?all = (sd1, gathered)"
    by (simp add: gatherPackages_flat)
  from foldl_gatherStep[of sd ?all] f
  have d: "distinct (map Package_Fingerprint gathered)"
    and m: "\<And>p. p \<in> set gathered \<longleftrightarrow> (\<exists>i. firstNew sd ?all i \<and> ?all ! i = p)"
    and s: "\<And>k. sd1 k = (if sd k = None \<and> k \<in> Package_Fingerprint ` set ?all then Some Open else sd k)"
    by auto
  have "sd1 (Package_Fingerprint p) = Some Open" if "p \<in> set gathered" for p
  proof -
    from that m obtain i where i: "firstNew sd ?all i" "?all ! i = p" by blast
    then have "sd (Package_Fingerprint p) = None" "i < length ?all"
      by (auto simp: firstNew_def)
    with i(2) have "sd (Package_Fingerprint p) = None" "p \<in> set ?all"
      using nth_mem by blast+
    then show ?thesis using s[of "Package_Fingerprint p"] by auto
  qed
  with d show ?thesis by blast
qed

lemma distinct_filter_take:
  "distinct (map g (filter P xs)) \<Longrightarrow> distinct (map g (filter P (take n xs)))"
proof -
  assume "distinct (map g (filter P xs))"
  then have "distinct (map g (filter P (take n xs @ drop n xs)))" by simp
  then show ?thesis by (simp del: append_take_drop_id)
qed

lemma createDepBuckets_ABC: "createDepBuckets [pkgA, pkgB, pkgC] = [pkgA, pkgB, pkgC]"
  by (simp add: createDepBuckets_def recordDeps_def initDepCount_def recordDep_def bucketLoop.simps
      pass_def visit_def notifyUsers_def countOf_def usersOf_def Let_def pkgA_def pkgB_def pkgC_def)

text \<open>
  Claim C2, as stated: \<open>Compile\<close> returns the error of the first failure the synchronizer
  observes. This fails: \<open>err = result.err\<close> runs for every failure (only the closing of
  \<open>killCh\<close> is guarded by \<open>killed\<close>), so a later failure replaces the recorded error.
  When \<open>B\<close> fails with \<open>boom\<close> and \<open>C\<close> then aborts, \<open>Compile\<close> returns
  \<open>errWorkerAbort\<close>, not \<open>boom\<close>; likewise with two results, both failures.
\<close>

theorem Compile_first_failure_counterexample:
  "map_sum id sync_err
     (Compile (\<lambda>pkg. Inr False) id (\<lambda>queue. resultsABC) Map.empty
        [\<lparr>Release_Name = ''r1'', Release_Packages = [pkgA, pkgB, pkgC]\<rparr>] None)
     = Inr (Some errWorkerAbort)
   \<and> result_err (hd (filter failed resultsABC)) = Some (OtherError ''boom'')
   \<and> map_sum id sync_err
     (Compile (\<lambda>pkg. Inr False) id
        (\<lambda>queue. [\<lparr>result_pkg = pkgA, result_err = Some (OtherError ''first'')\<rparr>,
                   \<lparr>result_pkg = pkgB, result_err = Some errWorkerAbort\<rparr>])
        Map.empty [\<lparr>Release_Name = ''r1'', Release_Packages = [pkgA, pkgB]\<rparr>] None)
     = Inr (Some errWorkerAbort)"
  by (simp add: Compile_def gatherPackages_def releasePackagesOf_def gatherStep_def
      pkgA_def pkgB_def pkgC_def resultsABC_def receive_def close_def failed_def)

text \<open>
  Claim C2, amended. Let \<open>Compile\<close> reach the worker pool (packages remain after the
  compiled ones are removed), let sorting only permute, and let the workers report
  successes only for queued packages, no fingerprint twice. If at least one result is
  a failure then \<open>Compile\<close> does not panic, consumes every result and prints for each its
  own line (success or failure with its error), returns the error of the last failure
  received, has closed \<open>killCh\<close>, and has closed exactly the signal channels of the
  successes. As long as no failure has been received \<open>killCh\<close> is open and no error is
  recorded, so the channel is closed at the first failure; closing it twice would panic.
\<close>

theorem Compile_returns_last_failure:
  assumes g: "gatherPackages sd releases igs = (sd1, gathered)"
    and r: "removeCompiledPackages isPackageCompiled sd1 [] gathered = Inr (sd2, Inr packages)"
    and ne: "packages \<noteq> []"
    and perm: "set (sortPackages packages) \<subseteq> set packages"
    and res: "workers (createDepBuckets (sortPackages packages)) = results"
    and h1: "\<forall>r\<in>set results. \<not> failed r \<longrightarrow>
               result_pkg r \<in> set (createDepBuckets (sortPackages packages))"
    and h2: "distinct (map (\<lambda>r. Package_Fingerprint (result_pkg r))
                         (filter (\<lambda>r. \<not> failed r) results))"
    and h3: "\<exists>r\<in>set results. failed r"
  shows "(\<exists>st'. Compile isPackageCompiled sortPackages workers sd releases igs = Inr st'
           \<and> sync_err st' = result_err (last (filter failed results))
           \<and> ui st' = map resultLine results
           \<and> killed st' \<and> killCh st' = Closed
           \<and> (\<forall>k. signalDependencies st' k
                  = (if k \<in> succeeded results then Some Closed else sd2 k)))
         \<and> (\<forall>n. filter failed (take n results) = [] \<longrightarrow>
               (\<exists>st1. synchronizer (startState sd2) (take n results) = Inr st1
                   \<and> sync_err st1 = None \<and> \<not> killed st1 \<and> killCh st1 = Open))"
proof -
  from gatherPackages_open[OF g] have
    d: "distinct (map Package_Fingerprint ([] @ gathered))"
    and o: "\<forall>p\<in>set ([] @ gathered). sd1 (Package_Fingerprint p) = Some Open"
    by auto
  from removeCompiledPackages_open[OF d o r]
  have po: "\<forall>p\<in>set packages. sd2 (Package_Fingerprint p) = Some Open" by blast
  have q: "set (createDepBuckets (sortPackages packages)) \<subseteq> set packages"
    using createDepBuckets_subset perm by blast
  have a1: "\<forall>r\<in>set results. \<not> failed r \<longrightarrow>
             signalDependencies (startState sd2) (Package_Fingerprint (result_pkg r)) = Some Open"
    using h1 q po by (auto simp: startState_def)
  have a3: "killed (startState sd2) \<or> killCh (startState sd2) = Open"
    by (simp add: startState_def)
  from h3 have nf: "filter failed results \<noteq> []" by (simp add: filter_empty_conv)
  have c: "Compile isPackageCompiled sortPackages workers sd releases igs
             = synchronizer (startState sd2) results"
    using g r ne res by (simp add: Compile_def startState_def)
  from synchronizer_run[OF a1 h2 a3] nf c
  have first: "\<exists>st'. Compile isPackageCompiled sortPackages workers sd releases igs = Inr st'
           \<and> sync_err st' = result_err (last (filter failed results))
           \<and> ui st' = map resultLine results
           \<and> killed st' \<and> killCh st' = Closed
           \<and> (\<forall>k. signalDependencies st' k
                  = (if k \<in> succeeded results then Some Closed else sd2 k))"
    by (auto simp: startState_def)
  have second: "\<exists>st1. synchronizer (startState sd2) (take n results) = Inr st1
                   \<and> sync_err st1 = None \<and> \<not> killed st1 \<and> killCh st1 = Open"
    if e: "filter failed (take n results) = []" for n
  proof -
    have b1: "\<forall>r\<in>set (take n results). \<not> failed r \<longrightarrow>
             signalDependencies (startState sd2) (Package_Fingerprint (result_pkg r)) = Some Open"
      using a1 by (meson in_set_takeD)
    have b2: "distinct (map (\<lambda>r. Package_Fingerprint (result_pkg r))
                         (filter (\<lambda>r. \<not> failed r) (take n results)))"
      using h2 by (rule distinct_filter_take)
    from synchronizer_run[OF b1 b2 a3] e show ?thesis
      by (auto simp: startState_def)
  qed
  from first second show ?thesis by blast
qed

theorem Compile_returns_last_failure_witness:
  "\<exists>st'. Compile (\<lambda>pkg. Inr False) id (\<lambda>queue. resultsABC) Map.empty
            [\<lparr>Release_Name = ''r1'', Release_Packages = [pkgA, pkgB, pkgC]\<rparr>] None = Inr st'
         \<and> sync_err st' = Some errWorkerAbort
         \<and> ui st' = [ResultSuccess ''r1'' ''A'', ResultFailure ''r1'' ''B'' (OtherError ''boom''),
                     ResultFailure ''r1'' ''C'' errWorkerAbort]
         \<and> killed st' \<and> killCh st' = Closed
         \<and> signalDependencies st' ''fA'' = Some Closed
         \<and> signalDependencies st' ''fB'' = Some Open"
proof -
  let ?sd = "[''fA'' \<mapsto> Open, ''fB'' \<mapsto> Open, ''fC'' \<mapsto> Open]"
  let ?rels = "[\<lparr>Release_Name = ''r1'', Release_Packages = [pkgA, pkgB, pkgC]\<rparr>]"
  have g: "gatherPackages Map.empty ?rels None = (?sd, [pkgA, pkgB, pkgC])"
    by (simp add: gatherPackages_def releasePackagesOf_def gatherStep_def pkgA_def pkgB_def pkgC_def)
  have r: "removeCompiledPackages (\<lambda>pkg. Inr False) ?sd [] [pkgA, pkgB, pkgC]
             = Inr (?sd, Inr [pkgA, pkgB, pkgC])"
    by simp
  have ne: "[pkgA, pkgB, pkgC] \<noteq> []" by simp
  have perm: "set (id [pkgA, pkgB, pkgC]) \<subseteq> set [pkgA, pkgB, pkgC]" by simp
  have h1: "\<forall>r\<in>set resultsABC. \<not> failed r \<longrightarrow>
               result_pkg r \<in> set (createDepBuckets (id [pkgA, pkgB, pkgC]))"
    by (simp add: createDepBuckets_ABC) (simp add: resultsABC_def failed_def)
  have h2: "distinct (map (\<lambda>r. Package_Fingerprint (result_pkg r))
                         (filter (\<lambda>r. \<not> failed r) resultsABC))"
    by (simp add: resultsABC_def failed_def)
  have h3: "\<exists>r\<in>set resultsABC. failed r"
    by (simp add: resultsABC_def failed_def)
  have l: "result_err (last (filter failed resultsABC)) = Some errWorkerAbort"
    by (simp add: resultsABC_def failed_def)
  have u: "map resultLine resultsABC
             = [ResultSuccess ''r1'' ''A'', ResultFailure ''r1'' ''B'' (OtherError ''boom''),
                ResultFailure ''r1'' ''C'' errWorkerAbort]"
    by (simp add: resultsABC_def resultLine_def pkgA_def pkgB_def pkgC_def)
  have s: "''fA'' \<in> succeeded resultsABC" "''fB'' \<notin> succeeded resultsABC"
    by (simp_all add: succeeded_def resultsABC_def failed_def pkgA_def pkgB_def pkgC_def)
  from Compile_returns_last_failure
         [where isPackageCompiled = "\<lambda>pkg. Inr False" and sortPackages = id
            and workers = "\<lambda>queue. resultsABC" and results = resultsABC,
          OF g r ne perm refl h1 h2 h3] l u s
  show ?thesis by auto
qed


section \<open>Service emitter (package kube: \<open>NewServiceList\<close>, \<open>newService\<close>, \<open>newClusteringService\<close>)\<close>



























subsection \<open>No service without ports\<close>







section \<open>Property merger: \<open>GetPropertiesForJob\<close> (package model)\<close>

text \<open>
  The values \<open>yaml.Unmarshal\<close> stores in an \<open>interface{}\<close>: nil, scalars, a sequence
  as \<open>[]interface{}\<close>, a mapping as \<open>map[interface{}]interface{}\<close> (an association
  list here; a Go map has each key once).
\<close>

datatype yvalue =
    VNil
  | VBool bool
  | VInt int
  | VFloat string
  | VString string
  | VSlice "yvalue list"
  | VMap "(yvalue \<times> yvalue) list"

text \<open>
  \<open>reflect.TypeOf(v).Kind()\<close>. A YAML sequence is a slice, so its kind is
  \<open>reflect.Slice\<close>; \<open>reflect.Array\<close> is the kind of a fixed-size array \<open>[n]T\<close>, which
  no decoded value has. \<open>GetPropertiesForJob\<close> tests for nil before it asks for the kind.
\<close>

datatype kind = KInvalid | KBool | KInt | KFloat64 | KString | KSlice | KMap | KArray

fun kindOf :: "yvalue \<Rightarrow> kind" where
  "kindOf VNil = KInvalid"
| "kindOf (VBool b) = KBool"
| "kindOf (VInt i) = KInt"
| "kindOf (VFloat x) = KFloat64"
| "kindOf (VString s) = KString"
| "kindOf (VSlice xs) = KSlice"
| "kindOf (VMap m) = KMap"

text \<open>A job property (name and default) and the opinions (\<open>map[string]interface{}\<close>).\<close>

record JobProperty =
  Property_Name :: string
  Property_Default :: yvalue

record Opinions =
  Light :: "(string \<times> yvalue) list"
  Dark :: "(string \<times> yvalue) list"

text \<open>
  Modelled from the spec: \<open>getKeyGrams\<close> is not in the source files. The spec says
  "Split the name on dots into key grams"; the function returns the grams or an error,
  and the spec names no error case.
\<close>

fun splitDots :: "string \<Rightarrow> string \<Rightarrow> string list" where
  "splitDots cur [] = [cur]"
| "splitDots cur (c # cs) =
     (if c = CHR ''.'' then cur # splitDots [] cs else splitDots (cur @ [c]) cs)"

definition getKeyGrams :: "string \<Rightarrow> string + string list" where
  "getKeyGrams key = Inr (splitDots [] key)"

text \<open>
  Modelled from the spec: \<open>getOpinionValue\<close> is not in the source files. The spec says
  "Look up the gram path" in the opinions: the value at the end of the path of nested
  mappings and whether it exists (\<open>None\<close> is \<open>ok = false\<close>; a null leaf exists).
\<close>

fun getOpinionValue :: "(yvalue \<times> yvalue) list \<Rightarrow> string list \<Rightarrow> yvalue option" where
  "getOpinionValue opinions [] = None"
| "getOpinionValue opinions [k] = map_of opinions (VString k)"
| "getOpinionValue opinions (k # ks) =
     (case map_of opinions (VString k) of
        Some (VMap inner) \<Rightarrow> getOpinionValue inner ks
      | _ \<Rightarrow> None)"

text \<open>
  Modelled from the spec: \<open>insertConfig\<close> is not in the source files. The spec says
  "Insert the resulting value back into an output tree by splitting the name again and
  creating intermediate maps. Conflict (attempting to extend a non-map) is an error."
\<close>

fun setKey :: "yvalue \<Rightarrow> yvalue \<Rightarrow> (yvalue \<times> yvalue) list \<Rightarrow> (yvalue \<times> yvalue) list" where
  "setKey k v [] = [(k, v)]"
| "setKey k v ((k', v') # m) = (if k' = k then (k, v) # m else (k', v') # setKey k v m)"

fun insertAt ::
  "(yvalue \<times> yvalue) list \<Rightarrow> string list \<Rightarrow> yvalue \<Rightarrow> string + (yvalue \<times> yvalue) list" where
  "insertAt config [] v = Inl ''empty key''"
| "insertAt config [k] v = Inr (setKey (VString k) v config)"
| "insertAt config (k # ks) v =
     (case map_of config (VString k) of
        None \<Rightarrow> (case insertAt [] ks v of
                   Inl e \<Rightarrow> Inl e
                 | Inr inner \<Rightarrow> Inr (setKey (VString k) (VMap inner) config))
      | Some (VMap inner) \<Rightarrow>
          (case insertAt inner ks v of
             Inl e \<Rightarrow> Inl e
           | Inr inner' \<Rightarrow> Inr (setKey (VString k) (VMap inner') config))
      | Some other \<Rightarrow> Inl (''cannot extend the non-map value at '' @ k))"

definition insertConfig ::
  "(yvalue \<times> yvalue) list \<Rightarrow> string \<Rightarrow> yvalue \<Rightarrow> string + (yvalue \<times> yvalue) list" where
  "insertConfig config name v = insertAt config (splitDots [] name) v"

text \<open>
  \<open>GetPropertiesForJob\<close> (the loop body in two parts: the test on the dark value that
  ends in \<open>continue\<close>, and the choice of the final value), the loop, and the function.
\<close>

definition darkExcludes :: "(yvalue \<times> yvalue) list \<Rightarrow> string list \<Rightarrow> bool" where
  "darkExcludes darkOpinionsByString keyPieces =
     (case getOpinionValue darkOpinionsByString keyPieces of
        Some darkValue \<Rightarrow>
          if darkValue = VNil then True
          else kindOf darkValue \<noteq> KMap \<and> kindOf darkValue \<noteq> KArray
      | None \<Rightarrow> False)"

definition finalValueOf :: "(yvalue \<times> yvalue) list \<Rightarrow> string list \<Rightarrow> JobProperty \<Rightarrow> yvalue" where
  "finalValueOf lightOpinionsByString keyPieces property =
     (case getOpinionValue lightOpinionsByString keyPieces of
        Some lightValue \<Rightarrow> if lightValue \<noteq> VNil then lightValue else Property_Default property
      | None \<Rightarrow> Property_Default property)"

fun propertiesLoop ::
  "(yvalue \<times> yvalue) list \<Rightarrow> (yvalue \<times> yvalue) list \<Rightarrow> JobProperty list
     \<Rightarrow> (yvalue \<times> yvalue) list \<Rightarrow> string + (yvalue \<times> yvalue) list" where
  "propertiesLoop light dark [] props = Inr props"
| "propertiesLoop light dark (property # rest) props =
     (case getKeyGrams (Property_Name property) of
        Inl e \<Rightarrow> Inl e
      | Inr keyPieces \<Rightarrow>
          if darkExcludes dark keyPieces then propertiesLoop light dark rest props
          else (case insertConfig props (Property_Name property)
                       (finalValueOf light keyPieces property) of
                  Inl e \<Rightarrow> Inl e
                | Inr props' \<Rightarrow> propertiesLoop light dark rest props'))"

definition GetPropertiesForJob ::
  "JobProperty list \<Rightarrow> Opinions \<Rightarrow> string + (yvalue \<times> yvalue) list" where
  "GetPropertiesForJob properties opinions =
     (case map_of (Light opinions) ''properties'' of
        None \<Rightarrow> Inl ''getPropertiesForJob: no 'properties' key in light opinions''
      | Some lightOpinions \<Rightarrow>
      (case map_of (Dark opinions) ''properties'' of
        None \<Rightarrow> Inl ''getPropertiesForJob: no 'properties' key in dark opinions''
      | Some darkOpinions \<Rightarrow>
      (case lightOpinions of
         VMap lightOpinionsByString \<Rightarrow>
           (case darkOpinions of
              VMap darkOpinionsByString \<Rightarrow>
                propertiesLoop lightOpinionsByString darkOpinionsByString properties []
            | _ \<Rightarrow> Inl ''getPropertiesForJob: can't convert darkOpinions into a string map'')
       | _ \<Rightarrow> Inl ''getPropertiesForJob: can't convert lightOpinions into a string map'')))"

text \<open>Scenario 4 of the spec: the property \<open>a.b.c\<close> with default 42, and opinions that
  hold one leaf at the path \<open>a.b.c\<close>.\<close>

definition abc42 :: "JobProperty list" where
  "abc42 = [\<lparr>Property_Name = ''a.b.c'', Property_Default = VInt 42\<rparr>]"

definition pathABC :: "yvalue \<Rightarrow> (string \<times> yvalue) list" where
  "pathABC leaf =
     [(''properties'', VMap [(VString ''a'', VMap [(VString ''b'', VMap [(VString ''c'', leaf)])])])]"

definition noOpinions :: "(string \<times> yvalue) list" where
  "noOpinions = [(''properties'', VMap [])]"

text \<open>
  Claim C3 says that a sequence at the leaf of the dark path does not exclude the
  property, as the comment in \<open>GetPropertiesForJob\<close> does ("When finding a map or
  array, or no value at all we consider the key to be an inner node which is not
  excluded"). The code compares the kind with \<open>reflect.Map\<close> and \<open>reflect.Array\<close>; a
  decoded sequence has kind \<open>reflect.Slice\<close>, so it excludes the property, like a scalar
  or null leaf. A mapping leaf or an absent path keeps the property, with the light
  value when there is one and the default otherwise.
\<close>

theorem GetPropertiesForJob_sequence_leaf_excludes:
  "GetPropertiesForJob abc42 \<lparr>Light = noOpinions, Dark = pathABC (VSlice [VInt 1])\<rparr> = Inr []
   \<and> GetPropertiesForJob abc42 \<lparr>Light = noOpinions, Dark = pathABC (VSlice [])\<rparr> = Inr []
   \<and> GetPropertiesForJob abc42 \<lparr>Light = noOpinions, Dark = pathABC VNil\<rparr> = Inr []
   \<and> GetPropertiesForJob abc42 \<lparr>Light = noOpinions, Dark = pathABC (VMap [])\<rparr>
       = Inr [(VString ''a'', VMap [(VString ''b'', VMap [(VString ''c'', VInt 42)])])]
   \<and> GetPropertiesForJob abc42 \<lparr>Light = noOpinions, Dark = noOpinions\<rparr>
       = Inr [(VString ''a'', VMap [(VString ''b'', VMap [(VString ''c'', VInt 42)])])]
   \<and> GetPropertiesForJob abc42 \<lparr>Light = pathABC (VInt 7), Dark = noOpinions\<rparr>
       = Inr [(VString ''a'', VMap [(VString ''b'', VMap [(VString ''c'', VInt 7)])])]"
  by (simp add: GetPropertiesForJob_def abc42_def pathABC_def noOpinions_def getKeyGrams_def
      darkExcludes_def insertConfig_def finalValueOf_def)

section \<open>Run aggregation: \<open>CalculateRoleRun\<close> (model/instance_groups.go)\<close>

text \<open>
  The error kinds of the validation package. The offending value that \<open>validation.Invalid\<close>
  carries is left out: in \<open>CalculateRoleRun\<close> it is the instance group itself or a value
  returned by a helper, and no property below depends on it. Field path and detail are kept.
\<close>
datatype validationError =
    Required string string
  | Invalid string string
  | NotFound string string
  | Forbidden string string
  | InternalError string string

text \<open>
  The fields of \<open>RoleRun\<close> that \<open>CalculateRoleRun\<close> validates. A health check and an affinity
  are pointers in the source (absent is \<open>None\<close>); flight stage, active-passive probe and service
  account are strings. Scaling, capabilities, volumes and the maximum resource fields are set by
  \<open>setScaling\<close>, \<open>mergeCapabilities\<close>, \<open>mergeVolumes\<close> and \<open>setMaxFields\<close>, which append no
  error and do not touch the five fields kept here; they are left out.
\<close>
record RoleRun =
  FlightStage :: string
  HealthCheck :: "string option"
  ActivePassiveProbe :: string
  ServiceAccount :: string
  Affinity :: "string option"

definition emptyRoleRun :: RoleRun where
  "emptyRoleRun = \<lparr>FlightStage = [], HealthCheck = None, ActivePassiveProbe = [],
                    ServiceAccount = [], Affinity = None\<rparr>"

record runJobReference =
  JobRef_Name :: string
  JobRef_Run :: "RoleRun option"

text \<open>
  Modelled from the spec: the helpers \<open>atLeastOnce\<close>, \<open>WithRunProperty\<close>, \<open>atMostOnce\<close>,
  \<open>equalOrMissing\<close>, \<open>uniqueStringProperty\<close>, the \<open>...Present\<close> predicates and the \<open>first...\<close>
  selectors are not in the source files. The spec says: "health check (at most one job may
  declare one), active-passive probe and service account (at most one distinct value across
  jobs), affinity (at most one job), flight stage (equal across jobs when multiple are
  present)"; the source comment says "need to be the same across jobs, specifying on one job is
  enough". A string property is declared when it is not empty. \<open>uniqueStringProperty\<close> returns
  the first declared value together with whether all declared values agree.
\<close>
definition runPropertyPresent :: "runJobReference \<Rightarrow> bool" where
  "runPropertyPresent j = (JobRef_Run j \<noteq> None)"

definition atLeastOnce :: "(runJobReference \<Rightarrow> bool) \<Rightarrow> runJobReference list \<Rightarrow> bool" where
  "atLeastOnce present jobs = (filter present jobs \<noteq> [])"

definition WithRunProperty :: "runJobReference list \<Rightarrow> RoleRun list" where
  "WithRunProperty jobs = concat (map (\<lambda>j. case JobRef_Run j of None \<Rightarrow> [] | Some r \<Rightarrow> [r]) jobs)"

definition atMostOnce :: "(RoleRun \<Rightarrow> bool) \<Rightarrow> RoleRun list \<Rightarrow> bool" where
  "atMostOnce present runs = (length (filter present runs) \<le> 1)"

definition healthCheckPresent :: "RoleRun \<Rightarrow> bool" where
  "healthCheckPresent r = (HealthCheck r \<noteq> None)"

definition firstHealthCheck :: "RoleRun list \<Rightarrow> string option" where
  "firstHealthCheck runs = (case filter healthCheckPresent runs of [] \<Rightarrow> None | r # _ \<Rightarrow> HealthCheck r)"

definition affinityPresent :: "RoleRun \<Rightarrow> bool" where
  "affinityPresent r = (Affinity r \<noteq> None)"

definition firstAffinity :: "RoleRun list \<Rightarrow> string option" where
  "firstAffinity runs = (case filter affinityPresent runs of [] \<Rightarrow> None | r # _ \<Rightarrow> Affinity r)"

definition flightStagePresent :: "RoleRun \<Rightarrow> bool" where
  "flightStagePresent r = (FlightStage r \<noteq> [])"

definition firstFlightStage :: "RoleRun list \<Rightarrow> string" where
  "firstFlightStage runs = (case filter flightStagePresent runs of [] \<Rightarrow> [] | r # _ \<Rightarrow> FlightStage r)"

definition equalOrMissing :: "RoleRun list \<Rightarrow> bool" where
  "equalOrMissing runs =
     (case filter flightStagePresent runs of
        [] \<Rightarrow> True
      | r # rest \<Rightarrow> list_all (\<lambda>r'. FlightStage r' = FlightStage r) rest)"

definition uniqueStringProperty :: "(RoleRun \<Rightarrow> string) \<Rightarrow> RoleRun list \<Rightarrow> string \<times> bool" where
  "uniqueStringProperty property runs =
     (case filter (\<lambda>v. v \<noteq> []) (map property runs) of
        [] \<Rightarrow> ([], True)
      | v # rest \<Rightarrow> (v, list_all (\<lambda>v'. v' = v) rest))"

text \<open>
  \<open>CalculateRoleRun\<close> (model/instance_groups.go). The result is the error list and the Run
  block of the instance group. The last branch, on the affinity, appends the health-check error,
  as the source does.
\<close>
definition groupField :: "string \<Rightarrow> string" where
  "groupField name = ''instance_groups['' @ name @ '']''"

definition errFlightStage :: "string \<Rightarrow> validationError" where
  "errFlightStage name = Invalid (groupField name)
     ''If specifying Run.FlightStage properties on multiple jobs of the same instance group, they need to have the same value''"

definition errHealthCheck :: "string \<Rightarrow> validationError" where
  "errHealthCheck name = Invalid (groupField name)
     ''Cannot specify Run.HealthCheck properties on more than one job of the same instance group''"

definition errActivePassiveProbe :: "string \<Rightarrow> validationError" where
  "errActivePassiveProbe name = Invalid (groupField name)
     ''Cannot specify Run.ActivePassiveProbe properties on more than one job of the same instance group''"

definition errServiceAccount :: "string \<Rightarrow> validationError" where
  "errServiceAccount name = Invalid (groupField name)
     ''Cannot specify Run.ServiceAccount properties on more than one job of the same instance group''"

definition CalculateRoleRun :: "string \<Rightarrow> runJobReference list \<Rightarrow> validationError list \<times> RoleRun" where
  "CalculateRoleRun name JobReferences =
     (if \<not> atLeastOnce runPropertyPresent JobReferences
      then ([Required (groupField name)
               ''`properties.bosh_containerization.run` required for at least one Job''],
            emptyRoleRun)
      else
        let jobReferences = WithRunProperty JobReferences;
            flightOk = equalOrMissing jobReferences;
            healthOk = atMostOnce healthCheckPresent jobReferences;
            probe = uniqueStringProperty ActivePassiveProbe jobReferences;
            account = uniqueStringProperty ServiceAccount jobReferences;
            affinityOk = atMostOnce affinityPresent jobReferences
        in ((if flightOk then [] else [errFlightStage name])
            @ (if healthOk then [] else [errHealthCheck name])
            @ (if snd probe then [] else [errActivePassiveProbe name])
            @ (if snd account then [] else [errServiceAccount name])
            @ (if affinityOk then [] else [errHealthCheck name]),
            \<lparr>FlightStage = (if flightOk then firstFlightStage jobReferences else []),
             HealthCheck = (if healthOk then firstHealthCheck jobReferences else None),
             ActivePassiveProbe = (if snd probe then fst probe else []),
             ServiceAccount = (if snd account then fst account else []),
             Affinity = (if affinityOk then firstAffinity jobReferences else None)\<rparr>))"


definition jobsAgree :: "runJobReference list" where
  "jobsAgree =
     [\<lparr>JobRef_Name = ''one'',
        JobRef_Run = Some (emptyRoleRun\<lparr>HealthCheck := Some ''tcp:8080'', ActivePassiveProbe := ''/probe''\<rparr>)\<rparr>,
      \<lparr>JobRef_Name = ''two'', JobRef_Run = Some (emptyRoleRun\<lparr>ServiceAccount := ''admin''\<rparr>)\<rparr>,
      \<lparr>JobRef_Name = ''three'', JobRef_Run = None\<rparr>]"

definition jobsConflict :: "runJobReference list" where
  "jobsConflict =
     [\<lparr>JobRef_Name = ''one'',
        JobRef_Run = Some (emptyRoleRun\<lparr>HealthCheck := Some ''tcp:8080'', ServiceAccount := ''admin''\<rparr>)\<rparr>,
      \<lparr>JobRef_Name = ''two'',
        JobRef_Run = Some (emptyRoleRun\<lparr>HealthCheck := Some ''tcp:9090'', ServiceAccount := ''guest''\<rparr>)\<rparr>]"

lemma uniqueStringProperty_ok_iff:
  "snd (uniqueStringProperty g runs)
     \<longleftrightarrow> (\<forall>a\<in>set runs. \<forall>b\<in>set runs. g a \<noteq> [] \<and> g b \<noteq> [] \<longrightarrow> g a = g b)"
proof (cases "filter (\<lambda>v. v \<noteq> []) (map g runs)")
  case Nil
  then have "\<forall>r\<in>set runs. g r = []" by (auto simp: filter_empty_conv)
  with Nil show ?thesis by (simp add: uniqueStringProperty_def)
next
  case (Cons v rest)
  have s: "set (v # rest) = {x \<in> g ` set runs. x \<noteq> []}"
    using Cons[symmetric] by auto
  have "list_all (\<lambda>v'. v' = v) rest \<longleftrightarrow> (\<forall>x\<in>set (v # rest). x = v)"
    by (simp add: list_all_iff)
  also have "\<dots> \<longleftrightarrow> (\<forall>a\<in>set runs. \<forall>b\<in>set runs. g a \<noteq> [] \<and> g b \<noteq> [] \<longrightarrow> g a = g b)"
  proof
    assume "\<forall>x\<in>set (v # rest). x = v"
    then show "\<forall>a\<in>set runs. \<forall>b\<in>set runs. g a \<noteq> [] \<and> g b \<noteq> [] \<longrightarrow> g a = g b"
      unfolding s by auto
  next
    assume h: "\<forall>a\<in>set runs. \<forall>b\<in>set runs. g a \<noteq> [] \<and> g b \<noteq> [] \<longrightarrow> g a = g b"
    have "v \<in> {x \<in> g ` set runs. x \<noteq> []}" using s by auto
    with h show "\<forall>x\<in>set (v # rest). x = v" unfolding s by auto
  qed
  finally show ?thesis using Cons by (simp add: uniqueStringProperty_def)
qed

lemma uniqueStringProperty_value:
  assumes "snd (uniqueStringProperty g runs)" and "r \<in> set runs" and "g r \<noteq> []"
  shows "fst (uniqueStringProperty g runs) = g r"
proof (cases "filter (\<lambda>v. v \<noteq> []) (map g runs)")
  case Nil
  with assms(2,3) show ?thesis by (auto simp: filter_empty_conv)
next
  case (Cons v rest)
  have s: "set (v # rest) = {x \<in> g ` set runs. x \<noteq> []}"
    using Cons[symmetric] by auto
  then have "g r \<in> set (v # rest)" using assms(2,3) by auto
  moreover have "\<forall>x\<in>set (v # rest). x = v"
    using assms(1) Cons by (simp add: uniqueStringProperty_def list_all_iff)
  ultimately have "g r = v" by blast
  then show ?thesis using Cons by (simp add: uniqueStringProperty_def)
qed

lemma uniqueStringProperty_none:
  "\<forall>r\<in>set runs. g r = [] \<Longrightarrow> fst (uniqueStringProperty g runs) = []"
proof -
  assume "\<forall>r\<in>set runs. g r = []"
  then have "filter (\<lambda>v. v \<noteq> []) (map g runs) = []" by (auto simp: filter_empty_conv)
  then show ?thesis by (simp add: uniqueStringProperty_def)
qed

lemma firstHealthCheck_unique:
  assumes "atMostOnce healthCheckPresent runs" and "r \<in> set runs" and "healthCheckPresent r"
  shows "firstHealthCheck runs = HealthCheck r"
proof -
  from assms(2,3) have m: "r \<in> set (filter healthCheckPresent runs)" by simp
  from assms(1) have "length (filter healthCheckPresent runs) \<le> 1" by (simp add: atMostOnce_def)
  with m have "filter healthCheckPresent runs = [r]"
    by (cases "filter healthCheckPresent runs") auto
  then show ?thesis by (simp add: firstHealthCheck_def)
qed

lemma firstHealthCheck_none:
  "\<forall>r\<in>set runs. \<not> healthCheckPresent r \<Longrightarrow> firstHealthCheck runs = None"
proof -
  assume "\<forall>r\<in>set runs. \<not> healthCheckPresent r"
  then have "filter healthCheckPresent runs = []" by (auto simp: filter_empty_conv)
  then show ?thesis by (simp add: firstHealthCheck_def)
qed

lemma err_distinct:
  "errFlightStage n \<noteq> errHealthCheck n" "errFlightStage n \<noteq> errActivePassiveProbe n"
  "errFlightStage n \<noteq> errServiceAccount n" "errHealthCheck n \<noteq> errActivePassiveProbe n"
  "errHealthCheck n \<noteq> errServiceAccount n" "errActivePassiveProbe n \<noteq> errServiceAccount n"
  by (simp_all add: errFlightStage_def errHealthCheck_def errActivePassiveProbe_def errServiceAccount_def)

lemma WithRunProperty_empty:
  "\<not> atLeastOnce runPropertyPresent jobs \<Longrightarrow> WithRunProperty jobs = []"
  by (induction jobs) (auto simp: atLeastOnce_def runPropertyPresent_def WithRunProperty_def split: if_splits)


lemma CalculateRoleRun_none:
  "\<not> atLeastOnce runPropertyPresent jobs \<Longrightarrow>
   CalculateRoleRun name jobs =
     ([Required (groupField name)
         ''`properties.bosh_containerization.run` required for at least one Job''], emptyRoleRun)"
  by (simp add: CalculateRoleRun_def)

lemma CalculateRoleRun_errors:
  "atLeastOnce runPropertyPresent jobs \<Longrightarrow>
   set (fst (CalculateRoleRun name jobs)) =
     (if equalOrMissing (WithRunProperty jobs) then {} else {errFlightStage name})
     \<union> (if atMostOnce healthCheckPresent (WithRunProperty jobs)
            \<and> atMostOnce affinityPresent (WithRunProperty jobs) then {} else {errHealthCheck name})
     \<union> (if snd (uniqueStringProperty ActivePassiveProbe (WithRunProperty jobs)) then {}
         else {errActivePassiveProbe name})
     \<union> (if snd (uniqueStringProperty ServiceAccount (WithRunProperty jobs)) then {}
         else {errServiceAccount name})"
  by (auto simp: CalculateRoleRun_def Let_def)

lemma CalculateRoleRun_run:
  "atLeastOnce runPropertyPresent jobs \<Longrightarrow>
   HealthCheck (snd (CalculateRoleRun name jobs)) =
     (if atMostOnce healthCheckPresent (WithRunProperty jobs)
      then firstHealthCheck (WithRunProperty jobs) else None)
   \<and> ActivePassiveProbe (snd (CalculateRoleRun name jobs)) =
     (if snd (uniqueStringProperty ActivePassiveProbe (WithRunProperty jobs))
      then fst (uniqueStringProperty ActivePassiveProbe (WithRunProperty jobs)) else [])
   \<and> ServiceAccount (snd (CalculateRoleRun name jobs)) =
     (if snd (uniqueStringProperty ServiceAccount (WithRunProperty jobs))
      then fst (uniqueStringProperty ServiceAccount (WithRunProperty jobs)) else [])"
  by (simp add: CalculateRoleRun_def Let_def)

text \<open>
  C9: \<open>CalculateRoleRun\<close> and the jobs of an instance group that carry a run block.
  The health-check error is in the returned list exactly when more than one job declares a
  health check or more than one job declares an affinity (the affinity branch appends the
  health-check error); the active-passive-probe error exactly when two jobs declare different
  non-empty probes; the service-account error exactly when two jobs declare different
  non-empty service accounts. When at most one job declares a health check, the Run block gets
  that health check (none if no job declares one); when the declared probes (service accounts)
  do not differ, the Run block gets the declared value (the empty string if none is declared).
\<close>
theorem CalculateRoleRun_unique_or_error:
  "(errHealthCheck name \<in> set (fst (CalculateRoleRun name jobs))
      \<longleftrightarrow> 1 < length (filter healthCheckPresent (WithRunProperty jobs))
          \<or> 1 < length (filter affinityPresent (WithRunProperty jobs)))
   \<and> (errActivePassiveProbe name \<in> set (fst (CalculateRoleRun name jobs))
      \<longleftrightarrow> (\<exists>a\<in>set (WithRunProperty jobs). \<exists>b\<in>set (WithRunProperty jobs).
             ActivePassiveProbe a \<noteq> [] \<and> ActivePassiveProbe b \<noteq> []
             \<and> ActivePassiveProbe a \<noteq> ActivePassiveProbe b))
   \<and> (errServiceAccount name \<in> set (fst (CalculateRoleRun name jobs))
      \<longleftrightarrow> (\<exists>a\<in>set (WithRunProperty jobs). \<exists>b\<in>set (WithRunProperty jobs).
             ServiceAccount a \<noteq> [] \<and> ServiceAccount b \<noteq> []
             \<and> ServiceAccount a \<noteq> ServiceAccount b))
   \<and> (length (filter healthCheckPresent (WithRunProperty jobs)) \<le> 1 \<longrightarrow>
        (\<forall>r\<in>set (WithRunProperty jobs). healthCheckPresent r \<longrightarrow>
           HealthCheck (snd (CalculateRoleRun name jobs)) = HealthCheck r)
        \<and> ((\<forall>r\<in>set (WithRunProperty jobs). \<not> healthCheckPresent r) \<longrightarrow>
           HealthCheck (snd (CalculateRoleRun name jobs)) = None))
   \<and> (errActivePassiveProbe name \<notin> set (fst (CalculateRoleRun name jobs)) \<longrightarrow>
        (\<forall>r\<in>set (WithRunProperty jobs). ActivePassiveProbe r \<noteq> [] \<longrightarrow>
           ActivePassiveProbe (snd (CalculateRoleRun name jobs)) = ActivePassiveProbe r)
        \<and> ((\<forall>r\<in>set (WithRunProperty jobs). ActivePassiveProbe r = []) \<longrightarrow>
           ActivePassiveProbe (snd (CalculateRoleRun name jobs)) = []))
   \<and> (errServiceAccount name \<notin> set (fst (CalculateRoleRun name jobs)) \<longrightarrow>
        (\<forall>r\<in>set (WithRunProperty jobs). ServiceAccount r \<noteq> [] \<longrightarrow>
           ServiceAccount (snd (CalculateRoleRun name jobs)) = ServiceAccount r)
        \<and> ((\<forall>r\<in>set (WithRunProperty jobs). ServiceAccount r = []) \<longrightarrow>
           ServiceAccount (snd (CalculateRoleRun name jobs)) = []))"
proof (cases "atLeastOnce runPropertyPresent jobs")
  case False
  have e: "WithRunProperty jobs = []" by (rule WithRunProperty_empty[OF False])
  show ?thesis
    unfolding CalculateRoleRun_none[OF False, of name] e
    by (simp add: emptyRoleRun_def errHealthCheck_def errActivePassiveProbe_def errServiceAccount_def)
next
  case True
  let ?runs = "WithRunProperty jobs"
  note E = CalculateRoleRun_errors[OF True, of name]
  note R = CalculateRoleRun_run[OF True, of name]
  have hc: "errHealthCheck name \<in> set (fst (CalculateRoleRun name jobs))
      \<longleftrightarrow> 1 < length (filter healthCheckPresent ?runs) \<or> 1 < length (filter affinityPresent ?runs)"
    unfolding E using err_distinct[of name] by (auto simp: atMostOnce_def split: if_splits)
  have ap0: "errActivePassiveProbe name \<in> set (fst (CalculateRoleRun name jobs))
      \<longleftrightarrow> \<not> snd (uniqueStringProperty ActivePassiveProbe ?runs)"
    unfolding E using err_distinct[of name] by (auto split: if_splits)
  have sa0: "errServiceAccount name \<in> set (fst (CalculateRoleRun name jobs))
      \<longleftrightarrow> \<not> snd (uniqueStringProperty ServiceAccount ?runs)"
    unfolding E using err_distinct[of name] by (auto split: if_splits)
  have ap: "errActivePassiveProbe name \<in> set (fst (CalculateRoleRun name jobs))
      \<longleftrightarrow> (\<exists>a\<in>set ?runs. \<exists>b\<in>set ?runs.
             ActivePassiveProbe a \<noteq> [] \<and> ActivePassiveProbe b \<noteq> []
             \<and> ActivePassiveProbe a \<noteq> ActivePassiveProbe b)"
    unfolding ap0 uniqueStringProperty_ok_iff by blast
  have sa: "errServiceAccount name \<in> set (fst (CalculateRoleRun name jobs))
      \<longleftrightarrow> (\<exists>a\<in>set ?runs. \<exists>b\<in>set ?runs.
             ServiceAccount a \<noteq> [] \<and> ServiceAccount b \<noteq> []
             \<and> ServiceAccount a \<noteq> ServiceAccount b)"
    unfolding sa0 uniqueStringProperty_ok_iff by blast
  have hv: "length (filter healthCheckPresent ?runs) \<le> 1 \<longrightarrow>
        (\<forall>r\<in>set ?runs. healthCheckPresent r \<longrightarrow>
           HealthCheck (snd (CalculateRoleRun name jobs)) = HealthCheck r)
        \<and> ((\<forall>r\<in>set ?runs. \<not> healthCheckPresent r) \<longrightarrow>
           HealthCheck (snd (CalculateRoleRun name jobs)) = None)"
  proof (intro impI conjI ballI)
    fix r assume "length (filter healthCheckPresent ?runs) \<le> 1" "r \<in> set ?runs" "healthCheckPresent r"
    then show "HealthCheck (snd (CalculateRoleRun name jobs)) = HealthCheck r"
      using R firstHealthCheck_unique[of ?runs r] by (simp add: atMostOnce_def)
  next
    assume "length (filter healthCheckPresent ?runs) \<le> 1" "\<forall>r\<in>set ?runs. \<not> healthCheckPresent r"
    then show "HealthCheck (snd (CalculateRoleRun name jobs)) = None"
      using R firstHealthCheck_none[of ?runs] by (simp add: atMostOnce_def)
  qed
  have av: "errActivePassiveProbe name \<notin> set (fst (CalculateRoleRun name jobs)) \<longrightarrow>
        (\<forall>r\<in>set ?runs. ActivePassiveProbe r \<noteq> [] \<longrightarrow>
           ActivePassiveProbe (snd (CalculateRoleRun name jobs)) = ActivePassiveProbe r)
        \<and> ((\<forall>r\<in>set ?runs. ActivePassiveProbe r = []) \<longrightarrow>
           ActivePassiveProbe (snd (CalculateRoleRun name jobs)) = [])"
  proof (intro impI conjI ballI)
    fix r assume "errActivePassiveProbe name \<notin> set (fst (CalculateRoleRun name jobs))"
      "r \<in> set ?runs" "ActivePassiveProbe r \<noteq> []"
    then show "ActivePassiveProbe (snd (CalculateRoleRun name jobs)) = ActivePassiveProbe r"
      using R uniqueStringProperty_value[of ActivePassiveProbe ?runs r] by (simp add: ap0)
  next
    assume "errActivePassiveProbe name \<notin> set (fst (CalculateRoleRun name jobs))"
      "\<forall>r\<in>set ?runs. ActivePassiveProbe r = []"
    then show "ActivePassiveProbe (snd (CalculateRoleRun name jobs)) = []"
      using R uniqueStringProperty_none[of ?runs ActivePassiveProbe] by (simp add: ap0)
  qed
  have sv: "errServiceAccount name \<notin> set (fst (CalculateRoleRun name jobs)) \<longrightarrow>
        (\<forall>r\<in>set ?runs. ServiceAccount r \<noteq> [] \<longrightarrow>
           ServiceAccount (snd (CalculateRoleRun name jobs)) = ServiceAccount r)
        \<and> ((\<forall>r\<in>set ?runs. ServiceAccount r = []) \<longrightarrow>
           ServiceAccount (snd (CalculateRoleRun name jobs)) = [])"
  proof (intro impI conjI ballI)
    fix r assume "errServiceAccount name \<notin> set (fst (CalculateRoleRun name jobs))"
      "r \<in> set ?runs" "ServiceAccount r \<noteq> []"
    then show "ServiceAccount (snd (CalculateRoleRun name jobs)) = ServiceAccount r"
      using R uniqueStringProperty_value[of ServiceAccount ?runs r] by (simp add: sa0)
  next
    assume "errServiceAccount name \<notin> set (fst (CalculateRoleRun name jobs))"
      "\<forall>r\<in>set ?runs. ServiceAccount r = []"
    then show "ServiceAccount (snd (CalculateRoleRun name jobs)) = []"
      using R uniqueStringProperty_none[of ?runs ServiceAccount] by (simp add: sa0)
  qed
  from hc ap sa hv av sv show ?thesis by (intro conjI)
qed

lemma WithRunProperty_jobsAgree:
  "WithRunProperty jobsAgree =
     [emptyRoleRun\<lparr>HealthCheck := Some ''tcp:8080'', ActivePassiveProbe := ''/probe''\<rparr>,
      emptyRoleRun\<lparr>ServiceAccount := ''admin''\<rparr>]"
  by (simp add: WithRunProperty_def jobsAgree_def)

lemma WithRunProperty_jobsConflict:
  "WithRunProperty jobsConflict =
     [emptyRoleRun\<lparr>HealthCheck := Some ''tcp:8080'', ServiceAccount := ''admin''\<rparr>,
      emptyRoleRun\<lparr>HealthCheck := Some ''tcp:9090'', ServiceAccount := ''guest''\<rparr>]"
  by (simp add: WithRunProperty_def jobsConflict_def)

theorem CalculateRoleRun_unique_or_error_witness:
  "HealthCheck (snd (CalculateRoleRun ''api'' jobsAgree)) = Some ''tcp:8080''
   \<and> ActivePassiveProbe (snd (CalculateRoleRun ''api'' jobsAgree)) = ''/probe''
   \<and> ServiceAccount (snd (CalculateRoleRun ''api'' jobsAgree)) = ''admin''
   \<and> errActivePassiveProbe ''api'' \<notin> set (fst (CalculateRoleRun ''api'' jobsAgree))
   \<and> errServiceAccount ''api'' \<notin> set (fst (CalculateRoleRun ''api'' jobsAgree))
   \<and> errHealthCheck ''api'' \<in> set (fst (CalculateRoleRun ''api'' jobsConflict))
   \<and> errServiceAccount ''api'' \<in> set (fst (CalculateRoleRun ''api'' jobsConflict))"
proof -
  note A = CalculateRoleRun_unique_or_error[of "''api''" jobsAgree, unfolded WithRunProperty_jobsAgree]
  note B = CalculateRoleRun_unique_or_error[of "''api''" jobsConflict, unfolded WithRunProperty_jobsConflict]
  have a1: "errActivePassiveProbe ''api'' \<notin> set (fst (CalculateRoleRun ''api'' jobsAgree))"
    using A by (simp add: emptyRoleRun_def)
  have a2: "errServiceAccount ''api'' \<notin> set (fst (CalculateRoleRun ''api'' jobsAgree))"
    using A by (simp add: emptyRoleRun_def)
  have a3: "HealthCheck (snd (CalculateRoleRun ''api'' jobsAgree)) = Some ''tcp:8080''"
    using A by (simp add: emptyRoleRun_def healthCheckPresent_def)
  have a4: "ActivePassiveProbe (snd (CalculateRoleRun ''api'' jobsAgree)) = ''/probe''"
    using A a1 by (simp add: emptyRoleRun_def)
  have a5: "ServiceAccount (snd (CalculateRoleRun ''api'' jobsAgree)) = ''admin''"
    using A a2 by (simp add: emptyRoleRun_def)
  have b1: "errHealthCheck ''api'' \<in> set (fst (CalculateRoleRun ''api'' jobsConflict))"
    using B by (simp add: emptyRoleRun_def healthCheckPresent_def)
  have b2: "errServiceAccount ''api'' \<in> set (fst (CalculateRoleRun ''api'' jobsConflict))"
    using B by (simp add: emptyRoleRun_def)
  from a1 a2 a3 a4 a5 b1 b2 show ?thesis by (intro conjI)
qed

end
